theory Spec2Isabelle
  imports Complex_Main "HOL-Library.Log_Nat"
begin

chapter \<open>The program\<close>

section \<open>Values shared by the modules\<close>

text \<open>
  A JavaScript number is modelled as a real or \<open>NaN\<close>; the infinities and the rounding of
  IEEE doubles are not modelled. A comparison with \<open>NaN\<close> is false, and arithmetic on
  \<open>NaN\<close> gives \<open>NaN\<close>.
\<close>

datatype JSNumber = NaN | Num real

fun js_lt :: "JSNumber \<Rightarrow> JSNumber \<Rightarrow> bool" where
  "js_lt (Num a) (Num b) = (a < b)"
| "js_lt _ _ = False"

definition js_gt :: "JSNumber \<Rightarrow> JSNumber \<Rightarrow> bool" where
  "js_gt a b = js_lt b a"



text \<open>Parsed JSON. An object is the list of its properties, each key once.\<close>

datatype json =
    JNull
  | JBool bool
  | JNum real
  | JStr string
  | JArr "json list"
  | JObj "(string \<times> json) list"

text \<open>What a rejected promise or a \<^verbatim>\<open>throw\<close> carries.\<close>

datatype exn = TypeError | SyntaxError | ServiceError string

text \<open>
  A stored document as the dashboard and the admin guard read it: its attributes by key.
  An attribute that is absent is \<open>None\<close> (JavaScript's \<^verbatim>\<open>undefined\<close>).
\<close>

datatype Attr = Str string | Null

type_synonym Document = "string \<rightharpoonup> Attr"

record 'd Listing =
  documents :: "'d list"
  total :: nat

datatype Query = Limit JSNumber | Offset JSNumber | OrderDesc string | Equal string string

record AccountUser =
  account_id :: string
  account_email :: string
  account_name :: string

record Session =
  providerAccessToken :: string

text \<open>The body of the request the form posts to \<^verbatim>\<open>/api/create-trip\<close>.\<close>

record TripRequestBody =
  req_country :: string
  numberOfDays :: JSNumber
  req_travelStyle :: string
  interests :: string
  req_budget :: string
  req_groupType :: string
  req_userId :: string

text \<open>
  The data the action passes to \<^verbatim>\<open>createDocument\<close>. \<open>tripDetail\<close> holds the value whose
  \<^verbatim>\<open>JSON.stringify\<close> text is stored; \<open>imageUrls\<close> has \<open>None\<close> for \<^verbatim>\<open>null\<close>.
\<close>

record TripData =
  tripDetail :: json
  createdAt :: string
  imageUrls :: "string option list"
  userId :: string

text \<open>A trip document as the trips page reads it: \<^verbatim>\<open>$id\<close>, \<^verbatim>\<open>tripDetail\<close>, \<^verbatim>\<open>imageUrls\<close>.\<close>

record TripRow =
  row_id :: string
  row_tripDetail :: string
  row_imageUrls :: "string option list option"

text \<open>
  The body of the photo search's answer: its \<^verbatim>\<open>results\<close> array, each entry by its
  \<^verbatim>\<open>urls.regular\<close> (\<open>None\<close> when \<^verbatim>\<open>urls\<close> or \<^verbatim>\<open>regular\<close> is missing), or no such array.
\<close>

datatype PhotoBody = Results "string option list" | NoResultList

text \<open>
  The external collaborators, by what they answer during one run: the account and session
  provider, the document store (two collections), the language model, the photo search,
  the app's own action endpoint as the form calls it, the JSON parser and the clock.
  \<open>Inl\<close> is a rejected call.
\<close>

record Services =
  account_get :: "exn + AccountUser"
  getSession :: "exn + Session option"
  googlePicture :: "string \<Rightarrow> string option"
  listUsers :: "Query list \<Rightarrow> exn + Document Listing"
  createUser :: "Document \<Rightarrow> exn + Document"
  listTrips :: "Query list \<Rightarrow> exn + TripRow Listing"
  createTrip :: "TripData \<Rightarrow> exn + string"
  generateContent :: "TripRequestBody \<Rightarrow> exn + string"
  fetchPhotos :: "string \<Rightarrow> exn + PhotoBody"
  postCreateTrip :: "TripRequestBody \<Rightarrow> exn + string option"
  JSON_parse :: "string \<Rightarrow> json option"
  toISOString :: string

section \<open>Utilities (\<^verbatim>\<open>lib/utils\<close>)\<close>

subsection \<open>Extraction of the fenced JSON block\<close>

text \<open>
  The regular expression \<^verbatim>\<open>/```json\n([\s\S]+?)\n```/\<close> as \<^verbatim>\<open>String.prototype.match\<close> runs
  it: the leftmost start at which the opening fence matches and a closing fence follows at
  least one character later; from that start the lazy group takes the fewest characters.
  \<open>regexMatch\<close> returns capture group 1. Only equality with the characters of the two
  fences matters, so a string is a list of 8-bit characters here.
\<close>

definition fenceOpen :: string where
  "fenceOpen = ''```json'' @ [CHR 0x0A]"

definition fenceClose :: string where
  "fenceClose = CHR 0x0A # ''```''"

definition startsWith :: "string \<Rightarrow> string \<Rightarrow> bool" where
  "startsWith s p = (take (length p) s = p)"

fun lazyBody :: "string \<Rightarrow> string \<Rightarrow> string option" where
  "lazyBody acc [] = None"
| "lazyBody acc (c # cs) =
     (if acc \<noteq> [] \<and> startsWith (c # cs) fenceClose then Some acc
      else lazyBody (acc @ [c]) cs)"

definition matchAt :: "string \<Rightarrow> string option" where
  "matchAt s =
     (if startsWith s fenceOpen then lazyBody [] (drop (length fenceOpen) s) else None)"

fun regexMatch :: "string \<Rightarrow> string option" where
  "regexMatch [] = None"
| "regexMatch (c # cs) =
     (case matchAt (c # cs) of Some g \<Rightarrow> Some g | None \<Rightarrow> regexMatch cs)"

text \<open>
  \<^verbatim>\<open>parseMarkdownToJson\<close> returns the parsed value or \<^verbatim>\<open>null\<close> (\<open>JNull\<close>), and logs through
  \<^verbatim>\<open>console.error\<close>; the second component is what it logged. \<^verbatim>\<open>JSON.parse\<close> is a
  parameter: \<open>None\<close> is its \<^verbatim>\<open>SyntaxError\<close>.
\<close>

datatype LogLine = ErrorParsingJSON | NoValidJSONFound | FailedToParseTripData

definition parseMarkdownToJson :: "(string \<Rightarrow> json option) \<Rightarrow> string \<Rightarrow> json \<times> LogLine list" where
  "parseMarkdownToJson parse markdownText =
     (case regexMatch markdownText of
        Some g \<Rightarrow>
          (if g \<noteq> [] then
             (case parse g of
                Some v \<Rightarrow> (v, [])
              | None \<Rightarrow> (JNull, [ErrorParsingJSON]))
           else (JNull, [NoValidJSONFound]))
      | None \<Rightarrow> (JNull, [NoValidJSONFound]))"


subsection \<open>Month-over-month trend\<close>

text \<open>
  A JavaScript number is an IEEE 754 double, and every arithmetic operation returns the
  exact result rounded to the nearest double, a tie going to the even significand.
  \<open>double\<close> is that rounding on the reals: a positive \<open>x\<close> with
  \<open>2 ^ e \<le> x < 2 ^ (e + 1)\<close> is rounded to a multiple of \<open>2 ^ (e - 52)\<close>, the spacing
  of the doubles with 53 significant bits there. The exponent is not bounded: the counts of
  documents, their differences, quotients and percentages are far from the overflow
  threshold and from the subnormal numbers.
\<close>

definition roundHalfEven :: "real \<Rightarrow> int" where
  "roundHalfEven x =
     (let f = \<lfloor>x\<rfloor>; d = x - of_int f
      in if d < 1 / 2 then f else if 1 / 2 < d then f + 1 else if even f then f else f + 1)"

definition ulpExponent :: "real \<Rightarrow> int" where
  "ulpExponent x =
     (if 1 \<le> x then bitlen \<lfloor>x\<rfloor> - 53 else - bitlen (\<lceil>1 / x\<rceil> - 1) - 52)"

definition roundMagnitude :: "real \<Rightarrow> real" where
  "roundMagnitude x =
     (if x = 0 then 0
      else of_int (roundHalfEven (x / 2 powi ulpExponent x)) * 2 powi ulpExponent x)"

definition double :: "real \<Rightarrow> real" where
  "double x = (if x < 0 then - roundMagnitude (- x) else roundMagnitude x)"

text \<open>
  \<^verbatim>\<open>calculateTrendPercentage\<close>. The arguments are doubles; the difference, the quotient
  and the product with 100 are each rounded, and \<^verbatim>\<open>Math.abs\<close> is exact.
\<close>

datatype Trend = increment | decrement | no_change

record TrendResult =
  trend :: Trend
  percentage :: real

definition calculateTrendPercentage :: "real \<Rightarrow> real \<Rightarrow> TrendResult" where
  "calculateTrendPercentage countOfThisMonth countOfLastMonth =
     (if countOfLastMonth = 0 then
        (if countOfThisMonth = 0 then \<lparr>trend = no_change, percentage = 0\<rparr>
         else \<lparr>trend = increment, percentage = 100\<rparr>)
      else
        (let change = double (countOfThisMonth - countOfLastMonth);
             percentage = \<bar>double (double (change / countOfLastMonth) * 100)\<bar>
         in if change > 0 then \<lparr>trend = increment, percentage = percentage\<rparr>
            else if change < 0 then \<lparr>trend = decrement, percentage = percentage\<rparr>
            else \<lparr>trend = no_change, percentage = 0\<rparr>))"

section \<open>Dashboard statistics (\<^verbatim>\<open>appwrite/dashboard\<close>)\<close>

text \<open>
  \<^verbatim>\<open>item[key] >= start\<close> and \<^verbatim>\<open>item[key] <= end\<close> on strings compare code units
  lexicographically. The bounds are ISO timestamps, so an attribute that is absent or
  \<^verbatim>\<open>null\<close> compares false with them.
\<close>

fun str_le :: "string \<Rightarrow> string \<Rightarrow> bool" where
  "str_le [] ys = True"
| "str_le (x # xs) [] = False"
| "str_le (x # xs) (y # ys) =
     (if x = y then str_le xs ys else (of_char x :: nat) < of_char y)"

fun attr_ge :: "Attr option \<Rightarrow> string \<Rightarrow> bool" where
  "attr_ge (Some (Str s)) bound = str_le bound s"
| "attr_ge _ bound = False"

fun attr_le :: "Attr option \<Rightarrow> string \<Rightarrow> bool" where
  "attr_le (Some (Str s)) bound = str_le s bound"
| "attr_le _ bound = False"

text \<open>\<open>end\<close> is \<open>None\<close> for \<^verbatim>\<open>undefined\<close>; \<^verbatim>\<open>!end\<close> also holds for the empty string.\<close>

definition filterByDate :: "Document list \<Rightarrow> string \<Rightarrow> string \<Rightarrow> string option \<Rightarrow> nat" where
  "filterByDate items key start end =
     length (filter (\<lambda>item. attr_ge (item key) start \<and>
                              (case end of None \<Rightarrow> True
                               | Some e \<Rightarrow> e = [] \<or> attr_le (item key) e)) items)"

definition filterUsersByRole :: "Document Listing \<Rightarrow> string \<Rightarrow> Document list" where
  "filterUsersByRole users role = filter (\<lambda>u. u ''status'' = Some (Str role)) (documents users)"

text \<open>
  Dates. A \<open>Stamp\<close> holds the calendar fields of a date (the month counted from 1).
  \<open>toISO\<close> renders the fields as \<^verbatim>\<open>toISOString\<close> renders a date in UTC:
  \<^verbatim>\<open>YYYY-MM-DDTHH:mm:ss.sssZ\<close>, each field in decimal, padded with zeros to its width
  (the format of the years 0 to 9999).
\<close>

record Stamp =
  year :: nat
  month :: nat
  dayOfMonth :: nat
  hours :: nat
  minutes :: nat
  seconds :: nat
  millis :: nat

definition digitChar :: "nat \<Rightarrow> char" where
  "digitChar d = ''0123456789'' ! d"

fun digits :: "nat \<Rightarrow> nat \<Rightarrow> string" where
  "digits 0 n = []"
| "digits (Suc k) n = digits k (n div 10) @ [digitChar (n mod 10)]"

definition toISO :: "Stamp \<Rightarrow> string" where
  "toISO t =
     digits 4 (year t) @ ''-'' @ digits 2 (month t) @ ''-'' @ digits 2 (dayOfMonth t) @ ''T''
     @ digits 2 (hours t) @ '':'' @ digits 2 (minutes t) @ '':'' @ digits 2 (seconds t) @ ''.''
     @ digits 3 (millis t) @ ''Z''"

definition leapYear :: "nat \<Rightarrow> bool" where
  "leapYear y = ((y mod 4 = 0 \<and> y mod 100 \<noteq> 0) \<or> y mod 400 = 0)"

definition daysInMonth :: "nat \<Rightarrow> nat \<Rightarrow> nat" where
  "daysInMonth y m =
     (if m = 2 then (if leapYear y then 29 else 28)
      else if m = 4 \<or> m = 6 \<or> m = 9 \<or> m = 11 then 30
      else 31)"

text \<open>
  \<^verbatim>\<open>new Date(y, monthIndex, d)\<close> is 00:00 local time of day \<open>d\<close> of the month with index
  \<open>monthIndex\<close> (from 0) of year \<open>y\<close>; a month index outside 0..11 carries into the year,
  and day 0 is the last day of the month before. The statistics construct day 1 and day 0
  only, and those are the days covered here.
\<close>

definition newDate :: "int \<Rightarrow> int \<Rightarrow> int \<Rightarrow> Stamp" where
  "newDate y monthIndex d =
     (let ym = y * 12 + monthIndex - (if d = 0 then 1 else 0);
          y' = nat (ym div 12);
          m' = nat (ym mod 12) + 1
      in \<lparr> year = y', month = m',
           dayOfMonth = (if d = 0 then daysInMonth y' m' else nat d),
           hours = 0, minutes = 0, seconds = 0, millis = 0 \<rparr>)"

text \<open>
  \<^verbatim>\<open>toISOString\<close> of a date built from local fields: the local time moved by the zone's
  offset (the minutes that \<^verbatim>\<open>getTimezoneOffset\<close> reports for that date, which are
  less than a day) and rendered.
\<close>

definition previousDay :: "Stamp \<Rightarrow> Stamp" where
  "previousDay t =
     (if 1 < dayOfMonth t then t\<lparr>dayOfMonth := dayOfMonth t - 1\<rparr>
      else if 1 < month t
        then t\<lparr>month := month t - 1, dayOfMonth := daysInMonth (year t) (month t - 1)\<rparr>
      else t\<lparr>year := year t - 1, month := 12, dayOfMonth := 31\<rparr>)"

definition nextDay :: "Stamp \<Rightarrow> Stamp" where
  "nextDay t =
     (if dayOfMonth t < daysInMonth (year t) (month t) then t\<lparr>dayOfMonth := dayOfMonth t + 1\<rparr>
      else if month t < 12 then t\<lparr>month := month t + 1, dayOfMonth := 1\<rparr>
      else t\<lparr>year := year t + 1, month := 1, dayOfMonth := 1\<rparr>)"

definition toUTC :: "int \<Rightarrow> Stamp \<Rightarrow> Stamp" where
  "toUTC zoneMinutes t =
     (let minuteOfDay = int (hours t) * 60 + int (minutes t) + zoneMinutes;
          t' = t\<lparr>hours := nat (minuteOfDay mod 1440) div 60,
                 minutes := nat (minuteOfDay mod 1440) mod 60\<rparr>
      in if minuteOfDay < 0 then previousDay t'
         else if 1440 \<le> minuteOfDay then nextDay t' else t')"

text \<open>
  What the host answers when the statistics are computed: the local year and month index
  of \<^verbatim>\<open>new Date()\<close>, and the offset of the local zone at a local date.
\<close>

record Clock =
  getFullYear :: nat
  getMonth :: nat
  getTimezoneOffset :: "Stamp \<Rightarrow> int"

definition dateToISOString :: "Clock \<Rightarrow> Stamp \<Rightarrow> string" where
  "dateToISOString d t = toISO (toUTC (getTimezoneOffset d t) t)"

text \<open>
  \<^verbatim>\<open>getUsersAndTripsStats\<close>: the three bounds derived from the clock, and the counts over
  the two listings the store answered.
\<close>

record MonthCounts =
  currentMonth :: nat
  lastMonth :: nat

record RoleCounts = MonthCounts +
  role_total :: nat

record DashboardStats =
  totalUsers :: nat
  usersJoined :: MonthCounts
  userRole :: RoleCounts
  totalTrips :: nat
  tripsCreated :: MonthCounts

definition getUsersAndTripsStats ::
  "Clock \<Rightarrow> Document Listing \<Rightarrow> Document Listing \<Rightarrow> DashboardStats" where
  "getUsersAndTripsStats d users trips =
     (let startCurrent = dateToISOString d (newDate (int (getFullYear d)) (int (getMonth d)) 1);
          startPrev = dateToISOString d (newDate (int (getFullYear d)) (int (getMonth d) - 1) 1);
          endPrev = dateToISOString d (newDate (int (getFullYear d)) (int (getMonth d)) 0)
      in
     \<lparr> totalUsers = total users,
       usersJoined =
         \<lparr> currentMonth = filterByDate (documents users) ''joinedAt'' startCurrent None,
           lastMonth = filterByDate (documents users) ''joinedAt'' startPrev (Some endPrev) \<rparr>,
       userRole =
         \<lparr> currentMonth =
             filterByDate (filterUsersByRole users ''user'') ''joinedAt'' startCurrent None,
           lastMonth =
             filterByDate (filterUsersByRole users ''user'') ''joinedAt'' startPrev (Some endPrev),
           role_total = length (filterUsersByRole users ''user'') \<rparr>,
       totalTrips = total trips,
       tripsCreated =
         \<lparr> currentMonth = filterByDate (documents trips) ''createdAt'' startCurrent None,
           lastMonth =
             filterByDate (filterUsersByRole users ''user'') ''joinedAt'' startPrev
               (Some endPrev) \<rparr> \<rparr>)"

text \<open>
  \<^verbatim>\<open>getUserGrowthPerDay\<close>. The accumulator object is the list of its properties in
  insertion order, which is the order \<^verbatim>\<open>Object.entries\<close> lists keys that are not array
  indices (a day label never is one). The rendering of a timestamp by
  \<^verbatim>\<open>new Date(joinedAt).toLocaleDateString('en-US', {month: 'short', day: 'numeric'})\<close>
  is the parameter \<open>toLocaleDateString\<close>.
\<close>

fun setProp :: "(string \<times> nat) list \<Rightarrow> string \<Rightarrow> nat \<Rightarrow> (string \<times> nat) list" where
  "setProp [] k v = [(k, v)]"
| "setProp ((k', v') # rest) k v =
     (if k' = k then (k, v) # rest else (k', v') # setProp rest k v)"

definition getProp :: "(string \<times> nat) list \<Rightarrow> string \<Rightarrow> nat option" where
  "getProp acc k = map_of acc k"

definition countDay :: "(string \<times> nat) list \<Rightarrow> string \<Rightarrow> (string \<times> nat) list" where
  "countDay acc day =
     setProp acc day ((case getProp acc day of None \<Rightarrow> 0 | Some c \<Rightarrow> c) + 1)"

record GrowthEntry =
  count :: nat
  day :: string

definition getUserGrowthPerDay ::
  "(Attr option \<Rightarrow> string) \<Rightarrow> Document Listing \<Rightarrow> GrowthEntry list" where
  "getUserGrowthPerDay toLocaleDateString users =
     (let userGrowth =
            foldl (\<lambda>acc user. countDay acc (toLocaleDateString (user ''joinedAt'')))
              [] (documents users)
      in map (\<lambda>(d, c). \<lparr>count = c, day = d\<rparr>) userGrowth)"

text \<open>The accumulator of that fold, as a function of the day labels alone.\<close>

definition tally :: "string list \<Rightarrow> (string \<times> nat) list" where
  "tally ds = foldl countDay [] ds"

section \<open>Profiles and the admin guard (\<^verbatim>\<open>appwrite/auth\<close>, \<^verbatim>\<open>admin-layout\<close>)\<close>

text \<open>
  \<^verbatim>\<open>getExistingUser\<close> catches every failure of the listing and returns \<^verbatim>\<open>null\<close>.
\<close>

definition getExistingUser :: "Services \<Rightarrow> string \<Rightarrow> Document option" where
  "getExistingUser sv uid =
     (case listUsers sv [Equal ''accountId'' uid] of
        Inl e \<Rightarrow> None
      | Inr l \<Rightarrow>
          (if total l > 0 then (case documents l of [] \<Rightarrow> None | d # ds \<Rightarrow> Some d)
           else None))"

text \<open>
  \<^verbatim>\<open>storeUserData\<close> returns \<^verbatim>\<open>undefined\<close> on every path (the value of
  \<^verbatim>\<open>redirect('/sign-in')\<close> is dropped, every exception is caught and logged). Its effect is
  the call of \<^verbatim>\<open>createDocument\<close>: \<open>requested\<close> lists the data it sends, \<open>stored\<close> the
  documents the store answers with.
\<close>

record StoreEffect =
  requested :: "Document list"
  stored :: "Document list"

definition noEffect :: StoreEffect where
  "noEffect = \<lparr>requested = [], stored = []\<rparr>"

definition profileData :: "AccountUser \<Rightarrow> string option \<Rightarrow> string \<Rightarrow> Document" where
  "profileData user profilePicture now =
     [ ''accountId'' \<mapsto> Str (account_id user),
       ''email'' \<mapsto> Str (account_email user),
       ''name'' \<mapsto> Str (account_name user),
       ''imageUrl'' \<mapsto> (case profilePicture of Some url \<Rightarrow> Str url | None \<Rightarrow> Null),
       ''joinedAt'' \<mapsto> Str now ]"

definition storeUserData :: "Services \<Rightarrow> StoreEffect" where
  "storeUserData sv =
     (case account_get sv of
        Inl e \<Rightarrow> noEffect
      | Inr user \<Rightarrow>
          (case getSession sv of
             Inl e \<Rightarrow> noEffect
           | Inr session \<Rightarrow>
               (let profilePicture =
                      (case session of
                         None \<Rightarrow> None
                       | Some s \<Rightarrow>
                           (if providerAccessToken s \<noteq> [] then googlePicture sv (providerAccessToken s)
                            else None));
                    data = profileData user profilePicture (toISOString sv)
                in (case createUser sv data of
                      Inl e \<Rightarrow> \<lparr>requested = [data], stored = []\<rparr>
                    | Inr createdUser \<Rightarrow> \<lparr>requested = [data], stored = [createdUser]\<rparr>))))"

datatype LoaderResult = Redirect string | Profile Document | Undefined

definition truthy :: "Attr option \<Rightarrow> bool" where
  "truthy a = (case a of Some (Str s) \<Rightarrow> s \<noteq> [] | _ \<Rightarrow> False)"

definition clientLoader :: "Services \<Rightarrow> LoaderResult \<times> StoreEffect" where
  "clientLoader sv =
     (case account_get sv of
        Inl e \<Rightarrow> (Redirect ''/sign-in'', noEffect)
      | Inr user \<Rightarrow>
          (if account_id user = [] then (Redirect ''/sign-in'', noEffect)
           else
             (let existingUser = getExistingUser sv (account_id user)
              in if (case existingUser of
                       Some d \<Rightarrow> d ''status'' = Some (Str ''user'')
                     | None \<Rightarrow> False)
                 then (Redirect ''/'', noEffect)
                 else
                   (case existingUser of
                      Some d \<Rightarrow>
                        (if truthy (d ''$id'') then (Profile d, noEffect)
                         else (Undefined, storeUserData sv))
                    | None \<Rightarrow> (Undefined, storeUserData sv)))))"

section \<open>The create-trip action (\<^verbatim>\<open>routes/api/create-trip\<close>)\<close>

text \<open>
  The action reads the request body before its \<^verbatim>\<open>try\<close>: a body that does not decode
  rejects the action itself (\<open>Unhandled\<close>). Everything after runs inside the \<^verbatim>\<open>try\<close>,
  whose \<^verbatim>\<open>catch\<close> answers \<^verbatim>\<open>{error: 'Failed to create trip'}\<close>. The prompt is a fixed
  template filled from the body, so the model's reply is a function of the body. The
  second component lists the documents written to the store.
\<close>

datatype Response = DataId string | DataError string | Unhandled exn

definition failedToCreateTrip :: Response where
  "failedToCreateTrip = DataError ''Failed to create trip''"

definition regularOrNull :: "string option \<Rightarrow> string option" where
  "regularOrNull r = (case r of Some url \<Rightarrow> (if url = [] then None else Some url) | None \<Rightarrow> None)"

definition action :: "Services \<Rightarrow> exn + TripRequestBody \<Rightarrow> Response \<times> TripData list" where
  "action sv requestJson =
     (case requestJson of
        Inl e \<Rightarrow> (Unhandled e, [])
      | Inr req \<Rightarrow>
          (case generateContent sv req of
             Inl e \<Rightarrow> (failedToCreateTrip, [])
           | Inr textResult \<Rightarrow>
               (let trip = fst (parseMarkdownToJson (JSON_parse sv) textResult)
                in (case fetchPhotos sv (req_country req @ '' '' @ req_travelStyle req) of
                      Inl e \<Rightarrow> (failedToCreateTrip, [])
                    | Inr NoResultList \<Rightarrow> (failedToCreateTrip, [])
                    | Inr (Results rs) \<Rightarrow>
                        (let data = \<lparr> tripDetail = trip,
                                      createdAt = toISOString sv,
                                      imageUrls = map regularOrNull (take 3 rs),
                                      userId = req_userId req \<rparr>
                         in (case createTrip sv data of
                               Inl e \<Rightarrow> (failedToCreateTrip, [])
                             | Inr newId \<Rightarrow> (DataId newId, [data])))))))"

section \<open>The trip form (\<^verbatim>\<open>routes/admin/create-trip\<close>)\<close>

record TripFormData =
  country :: string
  travelStyle :: string
  interest :: string
  duration :: JSNumber
  budget :: string
  groupType :: string

record FormState =
  formData :: TripFormData
  error :: "string option"
  loading :: bool

text \<open>
  What one run of \<^verbatim>\<open>handleSubmit\<close> leaves behind: the component state, the requests
  posted to the trip-generation endpoint, the navigation, and the exception of
  \<^verbatim>\<open>account.get()\<close>, which is awaited outside the \<^verbatim>\<open>try\<close>.
\<close>

record SubmitOutcome =
  after :: FormState
  posted :: "TripRequestBody list"
  navigated :: "string option"
  uncaught :: "exn option"

definition handleSubmit :: "Services \<Rightarrow> FormState \<Rightarrow> SubmitOutcome" where
  "handleSubmit sv st =
     (let f = formData st;
          st1 = st\<lparr>loading := True\<rparr>
      in if country f = [] \<or> travelStyle f = [] \<or> interest f = [] \<or> budget f = []
            \<or> groupType f = []
         then \<lparr> after = st1\<lparr>error := Some ''Please fill in all fields'', loading := False\<rparr>,
                posted = [], navigated = None, uncaught = None \<rparr>
         else if js_lt (duration f) (Num 1) \<or> js_gt (duration f) (Num 10)
         then \<lparr> after = st1\<lparr>error := Some ''Duration must be between 1 and 10 days'',
                               loading := False\<rparr>,
                posted = [], navigated = None, uncaught = None \<rparr>
         else
           (case account_get sv of
              Inl e \<Rightarrow> \<lparr> after = st1, posted = [], navigated = None, uncaught = Some e \<rparr>
            | Inr user \<Rightarrow>
                (if account_id user = []
                 then \<lparr> after = st1\<lparr>loading := False\<rparr>,
                        posted = [], navigated = None, uncaught = None \<rparr>
                 else
                   (let body = \<lparr> req_country = country f,
                                  numberOfDays = duration f,
                                  req_travelStyle = travelStyle f,
                                  interests = interest f,
                                  req_budget = budget f,
                                  req_groupType = groupType f,
                                  req_userId = account_id user \<rparr>
                    in \<lparr> after = st1\<lparr>loading := False\<rparr>,
                         posted = [body],
                         navigated =
                           (case postCreateTrip sv body of
                              Inr (Some tripId) \<Rightarrow>
                                (if tripId = [] then None else Some (''/trips/'' @ tripId))
                            | _ \<Rightarrow> None),
                         uncaught = None \<rparr>))))"

section \<open>The trips page (\<^verbatim>\<open>appwrite/trips\<close>, \<^verbatim>\<open>routes/admin/trips\<close>)\<close>



definition digitsValue :: "string \<Rightarrow> nat" where
  "digitsValue ds = foldl (\<lambda>n c. 10 * n + (of_char c - 48)) 0 ds"




record TripCardData =
  card_id :: string
  card_detail :: json
  card_imageUrls :: "string option list"

record LoaderData =
  trips :: "TripCardData list"
  loader_total :: nat


chapter \<open>The specification's vocabulary\<close>

text \<open>
  A well-formed fenced block, in the words of the utility's documentation
  (\<^verbatim>\<open>```json\n{...}\n```\<close>): the opening fence and a line break, a non-empty content, a line
  break and the closing fence. \<open>blockAt md i c\<close>: such a block with content \<open>c\<close> starts at
  offset \<open>i\<close> of \<open>md\<close>. The first block starts leftmost and ends at the first closing fence
  that leaves its content non-empty.
\<close>

definition blockHere :: "string \<Rightarrow> string \<Rightarrow> bool" where
  "blockHere s c = (c \<noteq> [] \<and> startsWith s (fenceOpen @ c @ fenceClose))"

definition blockAt :: "string \<Rightarrow> nat \<Rightarrow> string \<Rightarrow> bool" where
  "blockAt md i c = blockHere (drop i md) c"

definition firstBlock :: "string \<Rightarrow> nat \<Rightarrow> string \<Rightarrow> bool" where
  "firstBlock md i c =
     (blockAt md i c \<and>
      (\<forall>j c'. blockAt md j c' \<longrightarrow> i \<le> j \<and> (j = i \<longrightarrow> length c \<le> length c')))"



text \<open>The form's validity: every required field filled and a duration of 1 to 10 days.\<close>

definition requiredFilled :: "TripFormData \<Rightarrow> bool" where
  "requiredFilled f =
     (country f \<noteq> [] \<and> travelStyle f \<noteq> [] \<and> interest f \<noteq> [] \<and> budget f \<noteq> []
      \<and> groupType f \<noteq> [])"

definition durationInRange :: "JSNumber \<Rightarrow> bool" where
  "durationInRange d = (case d of Num r \<Rightarrow> 1 \<le> r \<and> r \<le> 10 | NaN \<Rightarrow> False)"

text \<open>
  The previous calendar month of a clock, as a year and a month number from 1, a date being
  in it, and its last day.
\<close>

definition previousMonth :: "Clock \<Rightarrow> nat \<times> nat" where
  "previousMonth d =
     (if getMonth d = 0 then (getFullYear d - 1, 12) else (getFullYear d, getMonth d))"

definition inPreviousMonth :: "Clock \<Rightarrow> Stamp \<Rightarrow> bool" where
  "inPreviousMonth d t = (year t = fst (previousMonth d) \<and> month t = snd (previousMonth d))"

definition lastDayOfPreviousMonth :: "Clock \<Rightarrow> nat" where
  "lastDayOfPreviousMonth d = daysInMonth (fst (previousMonth d)) (snd (previousMonth d))"

text \<open>
  The dates a stored timestamp can render, the clocks of the years that
  \<^verbatim>\<open>new Date(y, m, d)\<close> takes as they are (a year below 100 is read as 1900 + y), and a
  clock whose zone has no offset at the three bounds.
\<close>

definition validStamp :: "Stamp \<Rightarrow> bool" where
  "validStamp t =
     (year t \<le> 9999 \<and> 1 \<le> month t \<and> month t \<le> 12 \<and> 1 \<le> dayOfMonth t \<and> dayOfMonth t \<le> 31
      \<and> hours t < 24 \<and> minutes t < 60 \<and> seconds t < 60 \<and> millis t < 1000)"

definition validClock :: "Clock \<Rightarrow> bool" where
  "validClock d = (100 \<le> getFullYear d \<and> getFullYear d \<le> 9999 \<and> getMonth d < 12)"

definition utcBounds :: "Clock \<Rightarrow> bool" where
  "utcBounds d =
     (getTimezoneOffset d (newDate (int (getFullYear d)) (int (getMonth d)) 1) = 0
      \<and> getTimezoneOffset d (newDate (int (getFullYear d)) (int (getMonth d) - 1) 1) = 0
      \<and> getTimezoneOffset d (newDate (int (getFullYear d)) (int (getMonth d)) 0) = 0)"

text \<open>The order of dates by their fields, and the dates whose fields fit their widths.\<close>

definition stampLe :: "Stamp \<Rightarrow> Stamp \<Rightarrow> bool" where
  "stampLe a b =
     (if year a \<noteq> year b then year a < year b
      else if month a \<noteq> month b then month a < month b
      else if dayOfMonth a \<noteq> dayOfMonth b then dayOfMonth a < dayOfMonth b
      else if hours a \<noteq> hours b then hours a < hours b
      else if minutes a \<noteq> minutes b then minutes a < minutes b
      else if seconds a \<noteq> seconds b then seconds a < seconds b
      else millis a \<le> millis b)"

definition fitsISO :: "Stamp \<Rightarrow> bool" where
  "fitsISO t =
     (year t < 10 ^ 4 \<and> month t < 10 ^ 2 \<and> dayOfMonth t < 10 ^ 2 \<and> hours t < 10 ^ 2
      \<and> minutes t < 10 ^ 2 \<and> seconds t < 10 ^ 2 \<and> millis t < 10 ^ 3)"

text \<open>
  The create-trip action in the specification's terms: the query it sends to the photo
  search, the data it writes for a reply and a result list, and the failure of one of its
  three outbound calls (the model, the photo search with its result list, the write).
\<close>

definition photoQuery :: "TripRequestBody \<Rightarrow> string" where
  "photoQuery req = req_country req @ '' '' @ req_travelStyle req"

definition tripDataOf :: "Services \<Rightarrow> TripRequestBody \<Rightarrow> string \<Rightarrow> string option list \<Rightarrow> TripData" where
  "tripDataOf sv req reply rs =
     \<lparr> tripDetail = fst (parseMarkdownToJson (JSON_parse sv) reply),
       createdAt = toISOString sv,
       imageUrls = map regularOrNull (take 3 rs),
       userId = req_userId req \<rparr>"

definition someStepFails :: "Services \<Rightarrow> TripRequestBody \<Rightarrow> bool" where
  "someStepFails sv req =
     (case generateContent sv req of
        Inl e \<Rightarrow> True
      | Inr reply \<Rightarrow>
          (case fetchPhotos sv (photoQuery req) of
             Inl e \<Rightarrow> True
           | Inr NoResultList \<Rightarrow> True
           | Inr (Results rs) \<Rightarrow>
               (case createTrip sv (tripDataOf sv req reply rs) of
                  Inl e \<Rightarrow> True
                | Inr newId \<Rightarrow> False)))"

chapter \<open>Example runs\<close>

text \<open>Concrete inputs on which the model is run below.\<close>

text \<open>A clock in November 2026, in a zone without offset.\<close>

definition novemberClock :: Clock where
  "novemberClock = \<lparr> getFullYear = 2026, getMonth = 10, getTimezoneOffset = (\<lambda>t. 0) \<rparr>"

text \<open>The fields of a profile's \<open>joinedAt\<close>, read off the positions of the ISO format.\<close>

definition joinedStamp :: "Document \<Rightarrow> Stamp" where
  "joinedStamp u =
     (case u ''joinedAt'' of
        Some (Str s) \<Rightarrow>
          \<lparr> year = digitsValue (take 4 s), month = digitsValue (take 2 (drop 5 s)),
            dayOfMonth = digitsValue (take 2 (drop 8 s)), hours = digitsValue (take 2 (drop 11 s)),
            minutes = digitsValue (take 2 (drop 14 s)), seconds = digitsValue (take 2 (drop 17 s)),
            millis = digitsValue (take 3 (drop 20 s)) \<rparr>
      | _ \<Rightarrow> \<lparr> year = 0, month = 0, dayOfMonth = 0, hours = 0, minutes = 0, seconds = 0,
               millis = 0 \<rparr>)"

definition dashboardUsers :: "Document Listing" where
  "dashboardUsers =
     \<lparr> documents =
         [ [''status'' \<mapsto> Str ''user'', ''joinedAt'' \<mapsto> Str ''2026-10-15T12:00:00.000Z''],
           [''status'' \<mapsto> Str ''admin'', ''joinedAt'' \<mapsto> Str ''2026-10-20T08:00:00.000Z''],
           [''status'' \<mapsto> Str ''user'', ''joinedAt'' \<mapsto> Str ''2026-09-30T23:59:59.999Z''],
           [''status'' \<mapsto> Str ''user'', ''joinedAt'' \<mapsto> Str ''2026-10-31T12:00:00.000Z''],
           [''status'' \<mapsto> Str ''user'', ''joinedAt'' \<mapsto> Str ''2026-11-02T07:00:00.000Z''],
           [''status'' \<mapsto> Str ''user'', ''joinedAt'' \<mapsto> Str ''2026-10-01T00:00:00.000Z''] ],
       total = 6 \<rparr>"

text \<open>A traveller who signed up at noon on the last day of October 2026.\<close>

definition lastDayUser :: Document where
  "lastDayUser = [''status'' \<mapsto> Str ''user'', ''joinedAt'' \<mapsto> Str ''2026-10-31T12:00:00.000Z'']"

definition exampleUsers :: "Document Listing" where
  "exampleUsers =
     \<lparr> documents =
         [ [''status'' \<mapsto> Str ''user'', ''joinedAt'' \<mapsto> Str ''2026-10-15T12:00:00.000Z''],
           [''status'' \<mapsto> Str ''admin'', ''joinedAt'' \<mapsto> Str ''2026-10-20T08:00:00.000Z''],
           [''status'' \<mapsto> Str ''user'', ''joinedAt'' \<mapsto> Str ''2026-10-15T09:30:00.000Z''],
           [''status'' \<mapsto> Str ''user'', ''joinedAt'' \<mapsto> Str ''2026-11-02T07:00:00.000Z''] ],
       total = 4 \<rparr>"

definition exampleTrips :: "Document Listing" where
  "exampleTrips =
     \<lparr> documents = [ [''createdAt'' \<mapsto> Str ''2026-10-05T10:00:00.000Z''] ], total = 1 \<rparr>"

text \<open>A day label for the example: the month and day digits of the ISO timestamp.\<close>

definition monthDay :: "Attr option \<Rightarrow> string" where
  "monthDay a = (case a of Some (Str s) \<Rightarrow> take 5 (drop 5 s) | _ \<Rightarrow> ''Invalid Date'')"

definition exampleReply :: string where
  "exampleReply =
     ''Here is your trip: ```json'' @ [CHR 0x0A] @ ''{}'' @ [CHR 0x0A] @ ''``` Enjoy!''"

definition plainReply :: string where
  "plainReply = ''I could not plan this trip.''"

text \<open>\<^verbatim>\<open>JSON.parse\<close> on the two texts the examples parse.\<close>

definition exampleParse :: "string \<Rightarrow> json option" where
  "exampleParse s =
     (if s = ''{}'' then Some (JObj []) else if s = ''null'' then Some JNull else None)"

definition exampleAccount :: AccountUser where
  "exampleAccount =
     \<lparr> account_id = ''acc-1'', account_email = ''ada@example.org'', account_name = ''Ada'' \<rparr>"

definition exampleBody :: TripRequestBody where
  "exampleBody =
     \<lparr> req_country = ''Japan'', numberOfDays = Num 5, req_travelStyle = ''Relaxed'',
       interests = ''Food'', req_budget = ''Mid-range'', req_groupType = ''Couple'',
       req_userId = ''acc-1'' \<rparr>"

definition pageThree :: "Query list" where
  "pageThree = [Limit (Num 8), Offset (Num 16), OrderDesc ''createdAt'']"

definition exampleRow :: TripRow where
  "exampleRow = \<lparr> row_id = ''trip-17'', row_tripDetail = ''{}'', row_imageUrls = None \<rparr>"

text \<open>
  Services that answer every call: no profile yet, seventeen trips of which the third
  page holds the last, a model that replies with a fenced block, a photo search without
  hits.
\<close>

definition exampleServices :: Services where
  "exampleServices =
     \<lparr> account_get = Inr exampleAccount,
       getSession = Inr None,
       googlePicture = (\<lambda>token. None),
       listUsers = (\<lambda>q. Inr \<lparr>documents = [], total = 0\<rparr>),
       createUser = (\<lambda>d. Inr (d(''$id'' \<mapsto> Str ''profile-1''))),
       listTrips = (\<lambda>q. Inr \<lparr>documents = (if q = pageThree then [exampleRow] else []), total = 17\<rparr>),
       createTrip = (\<lambda>d. Inr ''trip-1''),
       generateContent = (\<lambda>b. Inr exampleReply),
       fetchPhotos = (\<lambda>q. Inr (Results [])),
       postCreateTrip = (\<lambda>b. Inr (Some ''trip-1'')),
       JSON_parse = exampleParse,
       toISOString = ''2026-11-02T07:33:00.000Z'' \<rparr>"

definition adminProfile :: Document where
  "adminProfile =
     [''$id'' \<mapsto> Str ''profile-0'', ''accountId'' \<mapsto> Str ''acc-1'', ''status'' \<mapsto> Str ''admin'']"

definition userProfile :: Document where
  "userProfile =
     [''$id'' \<mapsto> Str ''profile-0'', ''accountId'' \<mapsto> Str ''acc-1'', ''status'' \<mapsto> Str ''user'']"

definition filledForm :: TripFormData where
  "filledForm =
     \<lparr> country = ''Japan'', travelStyle = ''Relaxed'', interest = ''Food'', duration = Num 5,
       budget = ''Mid-range'', groupType = ''Couple'' \<rparr>"

definition plainReplyServices :: Services where
  "plainReplyServices = exampleServices\<lparr>generateContent := (\<lambda>b. Inr plainReply)\<rparr>"

definition photoDownServices :: Services where
  "photoDownServices = exampleServices\<lparr>fetchPhotos := (\<lambda>q. Inl (ServiceError ''fetch failed''))\<rparr>"

chapter \<open>Properties\<close>

section \<open>Trend percentage\<close>

text \<open>Rounding to an integer, and the spacing of the doubles around a positive number.\<close>

lemma roundHalfEven_int: "roundHalfEven (of_int z) = z"
  by (simp add: roundHalfEven_def)

lemma roundHalfEven_nonneg: "0 \<le> x \<Longrightarrow> 0 \<le> roundHalfEven x"
  by (auto simp: roundHalfEven_def Let_def)

lemma roundHalfEven_near: "\<bar>of_int (roundHalfEven x) - x\<bar> \<le> 1 / 2"
proof -
  define f where "f = \<lfloor>x\<rfloor>"
  define d where "d = x - of_int f"
  have d: "0 \<le> d" "d < 1" unfolding d_def f_def by linarith+
  have x: "x = of_int f + d" by (simp add: d_def)
  have r: "roundHalfEven x =
      (if d < 1 / 2 then f else if 1 / 2 < d then f + 1 else if even f then f else f + 1)"
    by (simp add: roundHalfEven_def Let_def f_def d_def)
  show ?thesis
  proof (cases "d < 1 / 2")
    case True
    with r d x show ?thesis by simp
  next
    case False
    note nl = False
    show ?thesis
    proof (cases "1 / 2 < d")
      case True
      with r nl d x show ?thesis by simp
    next
      case False
      with nl have "d = 1 / 2" by simp
      with r x show ?thesis by (cases "even f") simp_all
    qed
  qed
qed

lemma ulp_positive: "0 < (2::real) powi e"
  by (simp add: power_int_def)

lemma ulpExponent_lower:
  assumes "0 < x"
  shows "2 powi (ulpExponent x + 52) \<le> x"
proof (cases "1 \<le> x")
  case True
  then have pos: "0 < \<lfloor>x\<rfloor>" by linarith
  have one: "1 \<le> bitlen \<lfloor>x\<rfloor>"
    using pos bitlen_eq_zero_iff [of "\<lfloor>x\<rfloor>"] bitlen_nonneg [of "\<lfloor>x\<rfloor>"] by linarith
  from bitlen_bounds [OF pos] have "2 ^ nat (bitlen \<lfloor>x\<rfloor> - 1) \<le> \<lfloor>x\<rfloor>" by simp
  then have "(2::real) ^ nat (bitlen \<lfloor>x\<rfloor> - 1) \<le> of_int \<lfloor>x\<rfloor>"
    by (metis of_int_le_iff of_int_numeral of_int_power)
  also have "\<dots> \<le> x" by linarith
  finally have "(2::real) ^ nat (bitlen \<lfloor>x\<rfloor> - 1) \<le> x" .
  moreover have "ulpExponent x + 52 = bitlen \<lfloor>x\<rfloor> - 1"
    using True by (simp add: ulpExponent_def)
  moreover have "(2::real) powi (bitlen \<lfloor>x\<rfloor> - 1) = 2 ^ nat (bitlen \<lfloor>x\<rfloor> - 1)"
    using one by (simp add: power_int_def)
  ultimately show ?thesis by (simp only:)
next
  case False
  let ?m = "\<lceil>1 / x\<rceil> - 1"
  from False assms have "1 < 1 / x" by simp
  then have pos: "0 < ?m" by linarith
  from bitlen_bounds [OF pos] have "?m < 2 ^ nat (bitlen ?m)" by simp
  then have "\<lceil>1 / x\<rceil> \<le> 2 ^ nat (bitlen ?m)" by linarith
  then have "of_int \<lceil>1 / x\<rceil> \<le> (2::real) ^ nat (bitlen ?m)"
    by (metis of_int_le_iff of_int_numeral of_int_power)
  moreover have "1 / x \<le> of_int \<lceil>1 / x\<rceil>" by linarith
  ultimately have "1 / x \<le> (2::real) ^ nat (bitlen ?m)" by linarith
  with assms have "1 \<le> x * 2 ^ nat (bitlen ?m)"
    by (simp add: divide_le_eq mult.commute)
  then have low: "1 / 2 ^ nat (bitlen ?m) \<le> x"
    by (simp add: divide_le_eq)
  have "ulpExponent x + 52 = - bitlen ?m"
    using False by (simp add: ulpExponent_def)
  then have "(2::real) powi (ulpExponent x + 52) = 2 powi (- bitlen ?m)"
    by (simp only:)
  also have "\<dots> = 1 / 2 ^ nat (bitlen ?m)"
    using bitlen_nonneg [of ?m]
    by (simp add: power_int_minus power_int_nonneg_exp divide_inverse)
  finally show ?thesis using low by (simp only:)
qed

text \<open>
  One rounding moves a number by at most half a unit in the last place, which is at most
  \<open>2 ^ -53\<close> of the number. Integers below \<open>2 ^ 53\<close> are doubles, so rounding keeps them.
\<close>

lemma roundMagnitude_nonneg: "0 \<le> x \<Longrightarrow> 0 \<le> roundMagnitude x"
  by (auto simp: roundMagnitude_def intro!: mult_nonneg_nonneg roundHalfEven_nonneg
      divide_nonneg_nonneg less_imp_le [OF ulp_positive])

lemma roundMagnitude_error:
  assumes "0 \<le> x"
  shows "\<bar>roundMagnitude x - x\<bar> \<le> x / 2 ^ 53"
proof (cases "x = 0")
  case True
  then show ?thesis by (simp add: roundMagnitude_def)
next
  case False
  with assms have pos: "0 < x" by simp
  let ?u = "(2::real) powi ulpExponent x"
  have u: "0 < ?u" by (rule ulp_positive)
  have "roundMagnitude x - x = (of_int (roundHalfEven (x / ?u)) - x / ?u) * ?u"
    using False u by (simp add: roundMagnitude_def field_simps)
  then have "\<bar>roundMagnitude x - x\<bar> = \<bar>of_int (roundHalfEven (x / ?u)) - x / ?u\<bar> * ?u"
    using u by (simp add: abs_mult)
  also have "\<dots> \<le> (1 / 2) * ?u"
    using roundHalfEven_near [of "x / ?u"] u by (intro mult_right_mono) simp_all
  finally have half: "\<bar>roundMagnitude x - x\<bar> \<le> ?u / 2" by simp
  have "(2::real) powi (ulpExponent x + 52) = ?u * 2 ^ 52"
    by (simp add: power_int_add)
  with ulpExponent_lower [OF pos] have "?u * 2 ^ 52 \<le> x" by simp
  then have "?u / 2 \<le> x / 2 ^ 53" by simp
  with half show ?thesis by linarith
qed

lemma double_abs: "\<bar>double x\<bar> = roundMagnitude \<bar>x\<bar>"
  using roundMagnitude_nonneg [of x] roundMagnitude_nonneg [of "- x"]
  by (auto simp: double_def abs_if)

lemma double_nonneg: "0 \<le> x \<Longrightarrow> double x = roundMagnitude x"
  by (simp add: double_def)

lemma double_integer:
  assumes "\<bar>n\<bar> < 2 ^ 53"
  shows "double (of_int n) = of_int n"
proof -
  have mag: "roundMagnitude (of_int m) = of_int m" if m: "0 \<le> m" "m < 2 ^ 53" for m :: int
  proof (cases "m = 0")
    case True
    then show ?thesis by (simp add: roundMagnitude_def)
  next
    case False
    with m have pos: "0 < m" by simp
    let ?k = "bitlen m"
    have k53: "?k \<le> 53"
      using m by (simp add: bitlen_le_iff_power)
    have e: "ulpExponent (of_int m) = ?k - 53"
      using pos by (simp add: ulpExponent_def)
    have scale: "(2::real) powi (?k - 53) = 1 / 2 ^ nat (53 - ?k)"
    proof (cases "?k = 53")
      case True
      then show ?thesis by simp
    next
      case False
      with k53 have nn: "0 \<le> 53 - ?k" by simp
      have "(2::real) powi (?k - 53) = 2 powi (- (53 - ?k))" by simp
      also have "\<dots> = inverse (2 powi (53 - ?k))" by (rule power_int_minus)
      also have "\<dots> = 1 / 2 ^ nat (53 - ?k)"
        using nn by (simp add: power_int_nonneg_exp divide_inverse)
      finally show ?thesis .
    qed
    define p where "p = (2::real) ^ nat (53 - ?k)"
    have p: "0 < p" by (simp add: p_def)
    have pint: "p = of_int (2 ^ nat (53 - ?k))" by (simp add: p_def)
    have "of_int m / (1 / p) = (of_int (m * 2 ^ nat (53 - ?k)) :: real)"
      by (simp add: pint)
    then have "roundHalfEven (of_int m / (1 / p)) = m * 2 ^ nat (53 - ?k)"
      by (simp only: roundHalfEven_int)
    then have "of_int (roundHalfEven (of_int m / (1 / p))) * (1 / p) = (of_int m :: real)"
      using p by (simp add: pint)
    moreover have "roundMagnitude (of_int m) =
        of_int (roundHalfEven (of_int m / (1 / p))) * (1 / p)"
      using False unfolding roundMagnitude_def e scale p_def by simp
    ultimately show ?thesis by (simp only:)
  qed
  show ?thesis
  proof (cases "n < 0")
    case True
    with assms mag [of "- n"] show ?thesis by (simp add: double_def)
  next
    case False
    with assms mag [of n] show ?thesis by (simp add: double_def)
  qed
qed


text \<open>
  The difference of two counts is exact. The percentage is the exact quotient rounded, times
  100, rounded again: at most \<open>2 ^ -51\<close> of the exact percentage away from it.
\<close>

lemma double_count_difference:
  fixes c l :: nat
  assumes "c < 2 ^ 53" and "l < 2 ^ 53"
  shows "double (real c - real l) = real c - real l"
proof -
  have "\<bar>int c - int l\<bar> < 2 ^ 53" using assms by (simp add: abs_if)
  from double_integer [OF this] show ?thesis by simp
qed

lemma percentage_rounded:
  assumes "0 < b"
  shows "\<bar>double (double (a / b) * 100)\<bar> = double (double (\<bar>a\<bar> / b) * 100)"
proof -
  have q: "0 \<le> \<bar>a\<bar> / b" using assms by simp
  have "\<bar>double (double (a / b) * 100)\<bar> = roundMagnitude (\<bar>double (a / b)\<bar> * 100)"
    by (simp add: double_abs abs_mult)
  also have "\<dots> = roundMagnitude (roundMagnitude (\<bar>a\<bar> / b) * 100)"
    using assms by (simp add: double_abs abs_divide)
  also have "\<dots> = double (double (\<bar>a\<bar> / b) * 100)"
    using q roundMagnitude_nonneg [OF q] by (simp add: double_nonneg)
  finally show ?thesis .
qed

lemma percentage_error:
  assumes "0 \<le> q"
  shows "\<bar>double (double q * 100) - q * 100\<bar> \<le> q * 100 / 2 ^ 51"
proof -
  define q1 where "q1 = roundMagnitude q"
  define p where "p = roundMagnitude (q1 * 100)"
  have q1: "0 \<le> q1" unfolding q1_def using assms by (rule roundMagnitude_nonneg)
  have e1: "\<bar>q1 - q\<bar> \<le> q / 2 ^ 53"
    unfolding q1_def using assms by (rule roundMagnitude_error)
  have "0 \<le> q1 * 100" using q1 by simp
  from roundMagnitude_error [OF this] have e2: "\<bar>p - q1 * 100\<bar> \<le> q1 * 100 / 2 ^ 53"
    by (simp add: p_def)
  have "double (double q * 100) = p"
    using assms q1 by (simp add: double_nonneg p_def q1_def)
  moreover have "\<bar>p - q * 100\<bar> \<le> q * 100 / 2 ^ 51"
  proof -
    have e1': "\<bar>q1 - q\<bar> \<le> q / 9007199254740992"
      and e2': "\<bar>p - q1 * 100\<bar> \<le> q1 * 100 / 9007199254740992"
      using e1 e2 by simp_all
    have a: "q1 - q \<le> q / 9007199254740992" "q - q1 \<le> q / 9007199254740992"
      using e1' by linarith+
    have b: "p - q1 * 100 \<le> q1 * 100 / 9007199254740992"
      "q1 * 100 - p \<le> q1 * 100 / 9007199254740992"
      using e2' by linarith+
    have "p - q * 100 \<le> q * 100 / 2251799813685248"
      and "q * 100 - p \<le> q * 100 / 2251799813685248"
      using a b assms by linarith+
    then have "\<bar>p - q * 100\<bar> \<le> q * 100 / 2251799813685248" by linarith
    then show ?thesis by simp
  qed
  ultimately show ?thesis by simp
qed

lemma trend_equation:
  fixes c l :: nat
  assumes "c < 2 ^ 53" and "l < 2 ^ 53"
  shows "calculateTrendPercentage (real c) (real l) =
           (if l = 0 then
              (if c = 0 then \<lparr>trend = no_change, percentage = 0\<rparr>
               else \<lparr>trend = increment, percentage = 100\<rparr>)
            else if c > l then
              \<lparr>trend = increment,
               percentage = double (double (\<bar>real c - real l\<bar> / real l) * 100)\<rparr>
            else if c < l then
              \<lparr>trend = decrement,
               percentage = double (double (\<bar>real c - real l\<bar> / real l) * 100)\<rparr>
            else \<lparr>trend = no_change, percentage = 0\<rparr>)"
proof (cases "l = 0")
  case True
  then show ?thesis by (simp add: calculateTrendPercentage_def)
next
  case False
  then have pos: "0 < real l" by simp
  show ?thesis
    using False percentage_rounded [OF pos, of "real c - real l"]
    by (simp add: calculateTrendPercentage_def Let_def double_count_difference [OF assms])
qed

text \<open>
  Two runs of the arithmetic: \<open>2 / 10 * 100\<close> is 20, and \<open>11 / 5 * 100\<close> is the double
  next above 220, which prints as \<^verbatim>\<open>220.00000000000003\<close>.
\<close>

lemma double_fifth: "double (1 / 5) = 7205759403792794 / 2 ^ 55"
  by (simp add: double_def roundMagnitude_def ulpExponent_def compute_bitlen roundHalfEven_def
      power_int_minus)

lemma double_twenty: "double (double (1 / 5) * 100) = 20"
  by (simp add: double_fifth double_def roundMagnitude_def ulpExponent_def compute_bitlen
      roundHalfEven_def power_int_minus)

lemma double_eleven_fifths: "double (11 / 5) = 4953959590107546 / 2 ^ 51"
  by (simp add: double_def roundMagnitude_def ulpExponent_def compute_bitlen roundHalfEven_def
      power_int_minus)

lemma double_two_twenty: "double (double (11 / 5) * 100) = 220 + 1 / 2 ^ 45"
  by (simp add: double_eleven_fifths double_def roundMagnitude_def ulpExponent_def compute_bitlen
      roundHalfEven_def power_int_minus)

lemma trend_sixteen_five:
  "calculateTrendPercentage 16 5 = \<lparr>trend = increment, percentage = 220 + 1 / 2 ^ 45\<rparr>"
  using trend_equation [of 16 5] by (simp add: double_two_twenty)

text \<open>
  Claim C1, as the code has it. For non-negative integer counts (below \<open>2 ^ 53\<close>, as every
  count of documents is), \<^verbatim>\<open>calculateTrendPercentage\<close> returns no change with 0 when
  both counts are 0, increment with 100 when only the prior count is 0, and otherwise
  increment, decrement or no change (percentage 0) as the current count is above, below or
  equal to the prior one. The percentage of an increment or decrement is
  \<open>|current - prior| / prior * 100\<close> computed in doubles: the quotient rounded, then the
  product with 100 rounded. It is within \<open>2 ^ -51\<close> of the exact percentage, relative to it.
  The pairs (0,0), (5,0) and (8,10) give no change/0, increment/100 and decrement/20.
\<close>

theorem calculateTrendPercentage_cases:
  fixes c l :: nat
  assumes "c < 2 ^ 53" and "l < 2 ^ 53"
  shows "calculateTrendPercentage (real c) (real l) =
           (if l = 0 then
              (if c = 0 then \<lparr>trend = no_change, percentage = 0\<rparr>
               else \<lparr>trend = increment, percentage = 100\<rparr>)
            else if c > l then
              \<lparr>trend = increment,
               percentage = double (double (\<bar>real c - real l\<bar> / real l) * 100)\<rparr>
            else if c < l then
              \<lparr>trend = decrement,
               percentage = double (double (\<bar>real c - real l\<bar> / real l) * 100)\<rparr>
            else \<lparr>trend = no_change, percentage = 0\<rparr>)
         \<and> (l \<noteq> 0 \<longrightarrow>
              \<bar>percentage (calculateTrendPercentage (real c) (real l))
                 - \<bar>real c - real l\<bar> / real l * 100\<bar>
              \<le> \<bar>real c - real l\<bar> / real l * 100 / 2 ^ 51)
         \<and> calculateTrendPercentage 0 0 = \<lparr>trend = no_change, percentage = 0\<rparr>
         \<and> calculateTrendPercentage 5 0 = \<lparr>trend = increment, percentage = 100\<rparr>
         \<and> calculateTrendPercentage 8 10 = \<lparr>trend = decrement, percentage = 20\<rparr>"
proof -
  let ?q = "\<bar>real c - real l\<bar> / real l"
  note general = trend_equation [OF assms]
  have q: "0 \<le> ?q" by simp
  have bound: "l \<noteq> 0 \<longrightarrow>
      \<bar>percentage (calculateTrendPercentage (real c) (real l)) - ?q * 100\<bar> \<le> ?q * 100 / 2 ^ 51"
  proof (cases "l = 0 \<or> c = l")
    case True
    then show ?thesis unfolding general by auto
  next
    case False
    then have "percentage (calculateTrendPercentage (real c) (real l)) = double (double ?q * 100)"
      unfolding general by auto
    with percentage_error [OF q] show ?thesis by simp
  qed
  have e1: "calculateTrendPercentage 0 0 = \<lparr>trend = no_change, percentage = 0\<rparr>"
    by (simp add: calculateTrendPercentage_def)
  have e2: "calculateTrendPercentage 5 0 = \<lparr>trend = increment, percentage = 100\<rparr>"
    by (simp add: calculateTrendPercentage_def)
  have e3: "calculateTrendPercentage 8 10 = \<lparr>trend = decrement, percentage = 20\<rparr>"
    using trend_equation [of 8 10] by (simp add: double_twenty)
  show ?thesis by (rule conjI [OF general conjI [OF bound conjI [OF e1 conjI [OF e2 e3]]]])
qed

theorem calculateTrendPercentage_cases_witness:
  "(16::nat) < 2 ^ 53 \<and> (5::nat) < 2 ^ 53 \<and> (5::nat) \<noteq> 0
   \<and> calculateTrendPercentage 16 5 = \<lparr>trend = increment, percentage = 220 + 1 / 2 ^ 45\<rparr>
   \<and> \<bar>percentage (calculateTrendPercentage 16 5) - \<bar>16 - 5\<bar> / 5 * 100\<bar>
       \<le> \<bar>16 - 5\<bar> / 5 * 100 / 2 ^ 51"
  using calculateTrendPercentage_cases [of 16 5] by (simp add: double_two_twenty)

text \<open>
  The claim as stated, with the exact percentage, fails at the counts 16 and 5: the exact
  percentage is 220 and the code returns the next double above it.
\<close>

theorem calculateTrendPercentage_rounding_counterexample:
  "calculateTrendPercentage 16 5 = \<lparr>trend = increment, percentage = 220 + 1 / 2 ^ 45\<rparr>
   \<and> \<bar>(16::real) - 5\<bar> / 5 * 100 = 220
   \<and> percentage (calculateTrendPercentage 16 5) \<noteq> \<bar>16 - 5\<bar> / 5 * 100"
  by (simp add: trend_sixteen_five)

section \<open>Extraction of the fenced JSON block\<close>

text \<open>
  The scan of \<open>lazyBody\<close>, \<open>matchAt\<close> and \<open>regexMatch\<close> against the declarative
  reading: a result is the content of the first block, no result means no block.
\<close>

lemma startsWith_iff: "startsWith s p \<longleftrightarrow> (\<exists>r. s = p @ r)"
proof
  assume "startsWith s p"
  then have "s = p @ drop (length p) s"
    unfolding startsWith_def by (metis append_take_drop_id)
  then show "\<exists>r. s = p @ r" ..
next
  assume "\<exists>r. s = p @ r"
  then show "startsWith s p" by (auto simp: startsWith_def)
qed

lemma fenceClose_nonempty: "\<not> startsWith [] fenceClose"
  by (simp add: startsWith_def fenceClose_def)

lemma lazyBody_Some:
  "lazyBody acc rest = Some g \<Longrightarrow>
     \<exists>k. g = acc @ take k rest \<and> k \<le> length rest \<and> g \<noteq> [] \<and> startsWith (drop k rest) fenceClose \<and>
         (\<forall>k'<k. acc @ take k' rest \<noteq> [] \<longrightarrow> \<not> startsWith (drop k' rest) fenceClose)"
proof (induction rest arbitrary: acc)
  case Nil
  then show ?case by simp
next
  case (Cons c cs)
  show ?case
  proof (cases "acc \<noteq> [] \<and> startsWith (c # cs) fenceClose")
    case True
    with Cons.prems have "g = acc" by simp
    with True have "g = acc @ take 0 (c # cs) \<and> 0 \<le> length (c # cs) \<and> g \<noteq> []
        \<and> startsWith (drop 0 (c # cs)) fenceClose
        \<and> (\<forall>k'<0. acc @ take k' (c # cs) \<noteq> [] \<longrightarrow> \<not> startsWith (drop k' (c # cs)) fenceClose)"
      by simp
    then show ?thesis by blast
  next
    case False
    with Cons.prems have "lazyBody (acc @ [c]) cs = Some g" by auto
    from Cons.IH [OF this] obtain k where
      g: "g = (acc @ [c]) @ take k cs" and le: "k \<le> length cs" and ne: "g \<noteq> []" and
      cl: "startsWith (drop k cs) fenceClose" and
      mn: "\<forall>k'<k. (acc @ [c]) @ take k' cs \<noteq> [] \<longrightarrow> \<not> startsWith (drop k' cs) fenceClose"
      by blast
    have "\<forall>k'<Suc k. acc @ take k' (c # cs) \<noteq> [] \<longrightarrow> \<not> startsWith (drop k' (c # cs)) fenceClose"
    proof (intro allI impI)
      fix k' assume lt: "k' < Suc k" and nz: "acc @ take k' (c # cs) \<noteq> []"
      show "\<not> startsWith (drop k' (c # cs)) fenceClose"
      proof (cases k')
        case 0
        with nz False show ?thesis by simp
      next
        case (Suc m)
        with lt have "m < k" by simp
        with mn have "\<not> startsWith (drop m cs) fenceClose" by simp
        with Suc show ?thesis by simp
      qed
    qed
    with g le ne cl have "g = acc @ take (Suc k) (c # cs) \<and> Suc k \<le> length (c # cs) \<and> g \<noteq> []
        \<and> startsWith (drop (Suc k) (c # cs)) fenceClose
        \<and> (\<forall>k'<Suc k. acc @ take k' (c # cs) \<noteq> [] \<longrightarrow> \<not> startsWith (drop k' (c # cs)) fenceClose)"
      by simp
    then show ?thesis by blast
  qed
qed

lemma lazyBody_None:
  "lazyBody acc rest = None \<Longrightarrow> acc @ take k rest \<noteq> [] \<Longrightarrow> \<not> startsWith (drop k rest) fenceClose"
proof (induction rest arbitrary: acc k)
  case Nil
  then show ?case by (simp add: fenceClose_nonempty)
next
  case (Cons c cs)
  from Cons.prems(1) have here: "\<not> (acc \<noteq> [] \<and> startsWith (c # cs) fenceClose)"
    and later: "lazyBody (acc @ [c]) cs = None"
    by (auto split: if_splits)
  show ?case
  proof (cases k)
    case 0
    with Cons.prems(2) here show ?thesis by simp
  next
    case (Suc m)
    have "(acc @ [c]) @ take m cs \<noteq> []" by simp
    from Cons.IH [OF later this] Suc show ?thesis by simp
  qed
qed


lemma blockHere_split:
  "blockHere s c \<longleftrightarrow>
     c \<noteq> [] \<and> startsWith s fenceOpen \<and>
     c = take (length c) (drop (length fenceOpen) s) \<and>
     startsWith (drop (length c) (drop (length fenceOpen) s)) fenceClose"
proof
  assume "blockHere s c"
  then obtain r where c: "c \<noteq> []" and s: "s = fenceOpen @ c @ fenceClose @ r"
    by (auto simp: blockHere_def startsWith_iff)
  have "startsWith s fenceOpen"
    unfolding startsWith_iff using s by blast
  moreover have "drop (length fenceOpen) s = c @ fenceClose @ r"
    using s by simp
  ultimately show "c \<noteq> [] \<and> startsWith s fenceOpen \<and>
     c = take (length c) (drop (length fenceOpen) s) \<and>
     startsWith (drop (length c) (drop (length fenceOpen) s)) fenceClose"
    using c by (simp add: startsWith_iff)
next
  assume a: "c \<noteq> [] \<and> startsWith s fenceOpen \<and>
     c = take (length c) (drop (length fenceOpen) s) \<and>
     startsWith (drop (length c) (drop (length fenceOpen) s)) fenceClose"
  then obtain r where r: "drop (length c) (drop (length fenceOpen) s) = fenceClose @ r"
    by (auto simp: startsWith_iff)
  from a obtain t where t: "s = fenceOpen @ t"
    by (auto simp: startsWith_iff)
  then have "t = take (length c) t @ drop (length c) t" by simp
  with a r t have "s = fenceOpen @ c @ fenceClose @ r"
    by simp
  with a show "blockHere s c"
    by (auto simp: blockHere_def startsWith_iff)
qed

lemma matchAt_Some:
  assumes "matchAt s = Some g"
  shows "blockHere s g \<and> (\<forall>c'. blockHere s c' \<longrightarrow> length g \<le> length c')"
proof -
  let ?r = "drop (length fenceOpen) s"
  from assms have op: "startsWith s fenceOpen" and lb: "lazyBody [] ?r = Some g"
    by (auto simp: matchAt_def split: if_splits)
  from lazyBody_Some [OF lb] obtain k where
    g: "g = take k ?r" and le: "k \<le> length ?r" and ne: "g \<noteq> []" and
    cl: "startsWith (drop k ?r) fenceClose" and
    mn: "\<forall>k'<k. take k' ?r \<noteq> [] \<longrightarrow> \<not> startsWith (drop k' ?r) fenceClose"
    by auto
  from g le have len: "length g = k" by simp
  have here: "blockHere s g"
    unfolding blockHere_split using op ne cl g len by simp
  have "\<forall>c'. blockHere s c' \<longrightarrow> length g \<le> length c'"
  proof (intro allI impI)
    fix c' assume "blockHere s c'"
    then have c': "c' \<noteq> []" "c' = take (length c') ?r"
      "startsWith (drop (length c') ?r) fenceClose"
      unfolding blockHere_split by blast+
    show "length g \<le> length c'"
    proof (rule ccontr)
      assume "\<not> length g \<le> length c'"
      then have "length c' < k" using len by simp
      with mn have "take (length c') ?r \<noteq> [] \<longrightarrow> \<not> startsWith (drop (length c') ?r) fenceClose"
        by blast
      with c' show False by metis
    qed
  qed
  with here show ?thesis by blast
qed

lemma matchAt_None:
  assumes "matchAt s = None"
  shows "\<not> blockHere s c"
proof
  assume b: "blockHere s c"
  let ?r = "drop (length fenceOpen) s"
  from b have op: "startsWith s fenceOpen" and c: "c \<noteq> []" "c = take (length c) ?r"
    "startsWith (drop (length c) ?r) fenceClose"
    unfolding blockHere_split by blast+
  from assms op have "lazyBody [] ?r = None"
    by (simp add: matchAt_def)
  from lazyBody_None [OF this, of "length c"] c show False
    by (metis append_Nil)
qed

lemma matchAt_Nil: "matchAt [] = None"
  by (simp add: matchAt_def startsWith_def fenceOpen_def)

lemma regexMatch_Some:
  "regexMatch md = Some g \<Longrightarrow>
     \<exists>i. matchAt (drop i md) = Some g \<and> (\<forall>j<i. matchAt (drop j md) = None)"
proof (induction md)
  case Nil
  then show ?case by simp
next
  case (Cons c cs)
  show ?case
  proof (cases "matchAt (c # cs)")
    case (Some h)
    with Cons.prems have "h = g" by simp
    with Some have "matchAt (drop 0 (c # cs)) = Some g \<and> (\<forall>j<0. matchAt (drop j (c # cs)) = None)"
      by simp
    then show ?thesis by blast
  next
    case None
    with Cons.prems have "regexMatch cs = Some g" by simp
    from Cons.IH [OF this] obtain i where
      i: "matchAt (drop i cs) = Some g" and b: "\<forall>j<i. matchAt (drop j cs) = None"
      by blast
    have "\<forall>j<Suc i. matchAt (drop j (c # cs)) = None"
    proof (intro allI impI)
      fix j assume "j < Suc i"
      then show "matchAt (drop j (c # cs)) = None"
        using None b by (cases j) simp_all
    qed
    with i have "matchAt (drop (Suc i) (c # cs)) = Some g
        \<and> (\<forall>j<Suc i. matchAt (drop j (c # cs)) = None)"
      by simp
    then show ?thesis by blast
  qed
qed

lemma regexMatch_None: "regexMatch md = None \<Longrightarrow> matchAt (drop i md) = None"
proof (induction md arbitrary: i)
  case Nil
  then show ?case by (simp add: matchAt_Nil)
next
  case (Cons c cs)
  from Cons.prems have here: "matchAt (c # cs) = None" and rest: "regexMatch cs = None"
    by (auto split: option.splits)
  show ?case
    using here Cons.IH [OF rest] by (cases i) simp_all
qed

lemma regexMatch_first: "regexMatch md = Some g \<Longrightarrow> \<exists>i. firstBlock md i g"
proof -
  assume "regexMatch md = Some g"
  from regexMatch_Some [OF this] obtain i where
    i: "matchAt (drop i md) = Some g" and b: "\<forall>j<i. matchAt (drop j md) = None"
    by blast
  from matchAt_Some [OF i] have here: "blockAt md i g"
    and short: "\<forall>c'. blockAt md i c' \<longrightarrow> length g \<le> length c'"
    by (simp_all add: blockAt_def)
  have "\<forall>j c'. blockAt md j c' \<longrightarrow> i \<le> j \<and> (j = i \<longrightarrow> length g \<le> length c')"
  proof (intro allI impI)
    fix j c' assume bj: "blockAt md j c'"
    have "i \<le> j"
    proof (rule ccontr)
      assume "\<not> i \<le> j"
      then have "matchAt (drop j md) = None" using b by simp
      from matchAt_None [OF this] bj show False by (simp add: blockAt_def)
    qed
    with short bj show "i \<le> j \<and> (j = i \<longrightarrow> length g \<le> length c')" by blast
  qed
  with here have "firstBlock md i g" by (simp add: firstBlock_def)
  then show ?thesis ..
qed

lemma regexMatch_no_block: "regexMatch md = None \<Longrightarrow> \<not> blockAt md i c"
  using regexMatch_None [of md i] matchAt_None [of "drop i md" c]
  by (simp add: blockAt_def)

lemma firstBlock_unique:
  assumes "firstBlock md i c" and "firstBlock md j d"
  shows "i = j \<and> c = d"
proof -
  from assms have ij: "i = j"
    unfolding firstBlock_def by (meson le_antisym)
  with assms have len: "length c = length d"
    unfolding firstBlock_def by (meson le_antisym)
  from assms ij have "c = take (length c) (drop (length fenceOpen) (drop i md))"
    and "d = take (length d) (drop (length fenceOpen) (drop i md))"
    unfolding firstBlock_def blockAt_def blockHere_split by blast+
  with len ij show ?thesis by simp
qed

lemma firstBlock_regexMatch:
  assumes "firstBlock md i c"
  shows "regexMatch md = Some c"
proof (cases "regexMatch md")
  case None
  from regexMatch_no_block [OF None] assms show ?thesis
    by (simp add: firstBlock_def)
next
  case (Some g)
  from regexMatch_first [OF Some] obtain j where "firstBlock md j g" ..
  from firstBlock_unique [OF this assms] Some show ?thesis by simp
qed

lemma firstBlock_nonempty: "firstBlock md i c \<Longrightarrow> c \<noteq> []"
  by (simp add: firstBlock_def blockAt_def blockHere_def)


text \<open>
  Claim C3. For every reply, \<^verbatim>\<open>parseMarkdownToJson\<close> returns what \<^verbatim>\<open>JSON.parse\<close>
  makes of the content of the first well-formed fenced block when there is one and its
  content parses; it returns \<^verbatim>\<open>null\<close> and logs an error when the content does not
  parse, and when the reply has no well-formed block at all. A reply that has a block
  has a first one.
\<close>

theorem parseMarkdownToJson_first_block:
  "(firstBlock md i c \<longrightarrow>
      parseMarkdownToJson parse md =
        (case parse c of Some v \<Rightarrow> (v, []) | None \<Rightarrow> (JNull, [ErrorParsingJSON])))
   \<and> ((\<forall>k b. \<not> blockAt md k b) \<longrightarrow>
      parseMarkdownToJson parse md = (JNull, [NoValidJSONFound]))
   \<and> (blockAt md j d \<longrightarrow> (\<exists>k b. firstBlock md k b))"
proof (intro conjI impI)
  assume fb: "firstBlock md i c"
  from firstBlock_regexMatch [OF fb] firstBlock_nonempty [OF fb]
  show "parseMarkdownToJson parse md =
        (case parse c of Some v \<Rightarrow> (v, []) | None \<Rightarrow> (JNull, [ErrorParsingJSON]))"
    by (simp add: parseMarkdownToJson_def)
next
  assume none: "\<forall>k b. \<not> blockAt md k b"
  have "regexMatch md = None"
  proof (cases "regexMatch md")
    case None
    then show ?thesis .
  next
    case (Some g)
    from regexMatch_first [OF Some] none show ?thesis
      by (auto simp: firstBlock_def)
  qed
  then show "parseMarkdownToJson parse md = (JNull, [NoValidJSONFound])"
    by (simp add: parseMarkdownToJson_def)
next
  assume b: "blockAt md j d"
  show "\<exists>k b. firstBlock md k b"
  proof (cases "regexMatch md")
    case None
    from regexMatch_no_block [OF None] b show ?thesis by blast
  next
    case (Some g)
    from regexMatch_first [OF Some] show ?thesis by blast
  qed
qed

theorem parseMarkdownToJson_first_block_witness:
  "(\<exists>i. firstBlock exampleReply i ''{}'')
   \<and> parseMarkdownToJson exampleParse exampleReply = (JObj [], [])
   \<and> (\<forall>k b. \<not> blockAt plainReply k b)
   \<and> parseMarkdownToJson exampleParse plainReply = (JNull, [NoValidJSONFound])"
proof -
  have "regexMatch exampleReply = Some ''{}''"
    by (simp add: exampleReply_def matchAt_def startsWith_def fenceOpen_def fenceClose_def)
  from regexMatch_first [OF this] obtain i where fb: "firstBlock exampleReply i ''{}''" ..
  from parseMarkdownToJson_first_block [of exampleReply i "''{}''" exampleParse] fb
  have found: "parseMarkdownToJson exampleParse exampleReply = (JObj [], [])"
    by (simp add: exampleParse_def)
  have "regexMatch plainReply = None"
    by (simp add: plainReply_def matchAt_def startsWith_def fenceOpen_def)
  then have none: "\<forall>k b. \<not> blockAt plainReply k b"
    by (simp add: regexMatch_no_block)
  with parseMarkdownToJson_first_block [of plainReply _ _ exampleParse]
  have missing: "parseMarkdownToJson exampleParse plainReply = (JNull, [NoValidJSONFound])"
    by blast
  from fb found none missing show ?thesis by blast
qed

section \<open>Dashboard statistics\<close>

subsection \<open>User growth per day\<close>

lemma keys_setProp:
  "map fst (setProp acc k v) = (if k \<in> fst ` set acc then map fst acc else map fst acc @ [k])"
proof (induction acc)
  case Nil
  then show ?case by simp
next
  case (Cons p acc)
  obtain k' v' where p: "p = (k', v')" by (cases p)
  show ?case using Cons p by (cases "k' = k") (auto simp: image_iff)
qed

lemma map_of_setProp: "map_of (setProp acc k v) = (map_of acc)(k \<mapsto> v)"
  by (induction acc) (auto simp: fun_eq_iff)

lemma sum_setProp:
  "sum_list (map snd (setProp acc k v)) + (case map_of acc k of None \<Rightarrow> 0 | Some c \<Rightarrow> c)
     = sum_list (map snd acc) + v"
  by (induction acc) auto

lemma sum_countDay: "sum_list (map snd (countDay acc d)) = sum_list (map snd acc) + 1"
  using sum_setProp [of acc d "(case map_of acc d of None \<Rightarrow> 0 | Some c \<Rightarrow> c) + 1"]
  by (simp add: countDay_def getProp_def)

lemma distinct_countDay: "distinct (map fst acc) \<Longrightarrow> distinct (map fst (countDay acc d))"
  by (auto simp: countDay_def keys_setProp)

lemma tally_snoc: "tally (ds @ [d]) = countDay (tally ds) d"
  by (simp add: tally_def)

lemma tally_distinct: "distinct (map fst (tally ds))"
  by (induction ds rule: rev_induct) (simp_all add: tally_def distinct_countDay)

lemma tally_sum: "sum_list (map snd (tally ds)) = length ds"
  by (induction ds rule: rev_induct) (simp_all add: tally_snoc sum_countDay, simp add: tally_def)

lemma tally_map_of:
  "map_of (tally ds) k = (if k \<in> set ds then Some (length (filter (\<lambda>x. x = k) ds)) else None)"
proof (induction ds rule: rev_induct)
  case Nil
  then show ?case by (simp add: tally_def)
next
  case (snoc d ds)
  then show ?case
    by (auto simp: tally_snoc countDay_def getProp_def map_of_setProp filter_empty_conv)
qed

lemma getUserGrowthPerDay_tally:
  "getUserGrowthPerDay f users =
     map (\<lambda>(d, c). \<lparr>count = c, day = d\<rparr>) (tally (map (\<lambda>u. f (u ''joinedAt'')) (documents users)))"
  by (simp add: getUserGrowthPerDay_def tally_def foldl_map)

lemma entry_day: "map day (map (\<lambda>(d, c). \<lparr>count = c, day = d\<rparr>) xs) = map fst xs"
  by (induction xs) auto

lemma entry_count: "map count (map (\<lambda>(d, c). \<lparr>count = c, day = d\<rparr>) xs) = map snd xs"
  by (induction xs) auto

lemma entry_day_set: "day ` set (map (\<lambda>(d, c). \<lparr>count = c, day = d\<rparr>) xs) = fst ` set xs"
  by (induction xs) auto

lemma tally_entry:
  assumes "(d, c) \<in> set (tally ds)"
  shows "d \<in> set ds \<and> c = length (filter (\<lambda>x. x = d) ds) \<and> 0 < c"
proof -
  have "map_of (tally ds) d = Some c"
    using assms tally_distinct by (simp add: map_of_eq_Some_iff)
  then have in_ds: "d \<in> set ds" and c: "c = length (filter (\<lambda>x. x = d) ds)"
    by (auto simp: tally_map_of split: if_splits)
  from in_ds have "filter (\<lambda>x. x = d) ds \<noteq> []"
    by (auto simp: filter_empty_conv)
  with in_ds c show ?thesis by simp
qed

lemma tally_keys: "fst ` set (tally ds) = set ds"
proof -
  have "fst ` set (tally ds) = dom (map_of (tally ds))"
    by (simp add: dom_map_of_conv_image_fst)
  also have "\<dots> = set ds"
    by (auto simp: dom_def tally_map_of)
  finally show ?thesis .
qed

lemma count_labels:
  "length (filter (\<lambda>x. x = d) (map f us)) = length (filter (\<lambda>u. f u = d) us)"
  by (induction us) auto

text \<open>
  Claim C10. For every list of user documents, the entries of \<^verbatim>\<open>getUserGrowthPerDay\<close>
  have pairwise distinct day labels, each count is positive and is the number of users
  whose \<^verbatim>\<open>joinedAt\<close> renders to that label, the counts sum to the number of user
  documents, and the labels are exactly the labels of the users.
\<close>

theorem getUserGrowthPerDay_buckets:
  "distinct (map day (getUserGrowthPerDay f users))
   \<and> (\<forall>e \<in> set (getUserGrowthPerDay f users).
         0 < count e
         \<and> count e = length (filter (\<lambda>u. f (u ''joinedAt'') = day e) (documents users)))
   \<and> sum_list (map count (getUserGrowthPerDay f users)) = length (documents users)
   \<and> day ` set (getUserGrowthPerDay f users) = (\<lambda>u. f (u ''joinedAt'')) ` set (documents users)"
proof -
  let ?ds = "map (\<lambda>u. f (u ''joinedAt'')) (documents users)"
  have d: "distinct (map day (getUserGrowthPerDay f users))"
    by (simp only: getUserGrowthPerDay_tally entry_day tally_distinct)
  have s: "sum_list (map count (getUserGrowthPerDay f users)) = length (documents users)"
    by (simp only: getUserGrowthPerDay_tally entry_count tally_sum length_map)
  have "day ` set (getUserGrowthPerDay f users) = fst ` set (tally ?ds)"
    unfolding getUserGrowthPerDay_tally by (rule entry_day_set)
  then have k: "day ` set (getUserGrowthPerDay f users) = (\<lambda>u. f (u ''joinedAt'')) ` set (documents users)"
    by (simp add: tally_keys)
  have e: "\<forall>e \<in> set (getUserGrowthPerDay f users).
         0 < count e
         \<and> count e = length (filter (\<lambda>u. f (u ''joinedAt'') = day e) (documents users))"
  proof
    fix e assume "e \<in> set (getUserGrowthPerDay f users)"
    then obtain d c where dc: "(d, c) \<in> set (tally ?ds)" and e: "e = \<lparr>count = c, day = d\<rparr>"
      by (auto simp: getUserGrowthPerDay_tally)
    from tally_entry [OF dc] have pos: "0 < c" and c: "c = length (filter (\<lambda>x. x = d) ?ds)"
      by blast+
    have "c = length (filter (\<lambda>u. f (u ''joinedAt'') = d) (documents users))"
      unfolding c by (rule count_labels)
    with pos show "0 < count e
         \<and> count e = length (filter (\<lambda>u. f (u ''joinedAt'') = day e) (documents users))"
      using e by simp
  qed
  show ?thesis by (rule conjI [OF d conjI [OF e conjI [OF s k]]])
qed

theorem getUserGrowthPerDay_buckets_witness:
  "getUserGrowthPerDay monthDay exampleUsers =
      [\<lparr>count = 2, day = ''10-15''\<rparr>, \<lparr>count = 1, day = ''10-20''\<rparr>,
       \<lparr>count = 1, day = ''11-02''\<rparr>]
   \<and> distinct (map day (getUserGrowthPerDay monthDay exampleUsers))
   \<and> sum_list (map count (getUserGrowthPerDay monthDay exampleUsers)) = 4"
  using getUserGrowthPerDay_buckets [of monthDay exampleUsers]
  by (simp add: getUserGrowthPerDay_def exampleUsers_def monthDay_def countDay_def getProp_def)

subsection \<open>Trips created last month\<close>

text \<open>The rendering of a field in two, three and four digits.\<close>

lemma digits_2: "digits 2 n = [digitChar (n div 10 mod 10), digitChar (n mod 10)]"
  by (simp add: numeral_2_eq_2)

lemma digits_3:
  "digits 3 n = [digitChar (n div 10 div 10 mod 10), digitChar (n div 10 mod 10),
                 digitChar (n mod 10)]"
  by (simp add: numeral_3_eq_3)

lemma digits_4:
  "digits 4 n = [digitChar (n div 10 div 10 div 10 mod 10),
                 digitChar (n div 10 div 10 mod 10), digitChar (n div 10 mod 10),
                 digitChar (n mod 10)]"
proof -
  have "(4::nat) = Suc (Suc (Suc (Suc 0)))" by simp
  then have "digits 4 n = digits (Suc (Suc (Suc (Suc 0)))) n" by (simp only:)
  then show ?thesis by simp
qed

lemmas iso_eval = toISO_def digits_2 digits_3 digits_4 digitChar_def

text \<open>
  Rendered timestamps have one width, and their order as strings is the order of the dates
  they render.
\<close>

lemma str_le_same_length:
  "length x = length y \<Longrightarrow> str_le (x @ u) (y @ v) = (if x = y then str_le u v else str_le x y)"
proof (induction x arbitrary: y)
  case Nil
  then show ?case by simp
next
  case (Cons a x)
  then obtain b y' where y: "y = b # y'" and len: "length x = length y'"
    by (cases y) auto
  have "str_le ((a # x) @ u) ((b # y') @ v) =
      (if a = b then str_le (x @ u) (y' @ v) else (of_char a :: nat) < of_char b)"
    by simp
  also have "\<dots> = (if a = b then (if x = y' then str_le u v else str_le x y')
      else (of_char a :: nat) < of_char b)"
    by (simp only: Cons.IH [OF len])
  also have "\<dots> = (if a # x = b # y' then str_le u v else str_le (a # x) (b # y'))"
    by simp
  finally show ?case by (simp only: y)
qed

lemma digits_length: "length (digits k n) = k"
  by (induction k arbitrary: n) simp_all

lemma digit_code:
  assumes "d < 10"
  shows "of_char (digitChar d) = 48 + d"
proof -
  from assms have "d = 0 \<or> d = 1 \<or> d = 2 \<or> d = 3 \<or> d = 4 \<or> d = 5 \<or> d = 6 \<or> d = 7 \<or> d = 8
      \<or> d = 9"
    by arith
  then show ?thesis by (auto simp: digitChar_def)
qed

lemma digit_char_eq: "a < 10 \<Longrightarrow> b < 10 \<Longrightarrow> (digitChar a = digitChar b) = (a = b)"
  by (metis digit_code add_left_cancel)

lemma digit_char_le:
  "a < 10 \<Longrightarrow> b < 10 \<Longrightarrow> str_le [digitChar a] [digitChar b] = (a \<le> b)"
  by (auto simp: digit_code digit_char_eq)

lemma radix_le:
  fixes q r q' r' :: nat
  assumes "r < 10" and "r' < 10"
  shows "(10 * q + r \<le> 10 * q' + r') = (if q = q' then r \<le> r' else q \<le> q')"
proof (cases "q = q'")
  case True
  then show ?thesis by simp
next
  case False
  show ?thesis
  proof (cases "q < q'")
    case True
    with assms have "10 * q + r \<le> 10 * q' + r'" by linarith
    with True False show ?thesis by simp
  next
    case nlt: False
    with False have "q' < q" by simp
    with assms have "\<not> 10 * q + r \<le> 10 * q' + r'" by linarith
    with nlt False show ?thesis by simp
  qed
qed

lemma radix_eq:
  fixes q r q' r' :: nat
  assumes "r < 10" and "r' < 10"
  shows "(10 * q + r = 10 * q' + r') = (q = q' \<and> r = r')"
proof -
  have "(10 * q + r = 10 * q' + r') =
      (10 * q + r \<le> 10 * q' + r' \<and> 10 * q' + r' \<le> 10 * q + r)"
    by (rule order_class.order_eq_iff)
  also have "\<dots> = ((if q = q' then r \<le> r' else q \<le> q') \<and> (if q' = q then r' \<le> r else q' \<le> q))"
    by (simp only: radix_le [OF assms] radix_le [OF assms(2) assms(1)])
  also have "\<dots> = (q = q' \<and> r = r')"
    by (cases "q = q'") auto
  finally show ?thesis .
qed

lemma digits_compare:
  "a < 10 ^ k \<Longrightarrow> b < 10 ^ k \<Longrightarrow>
     (digits k a = digits k b \<longleftrightarrow> a = b) \<and> (str_le (digits k a) (digits k b) \<longleftrightarrow> a \<le> b)"
proof (induction k arbitrary: a b)
  case 0
  then show ?case by simp
next
  case (Suc k)
  define qa ra qb rb where "qa = a div 10" and "ra = a mod 10" and "qb = b div 10"
    and "rb = b mod 10"
  have a: "a = 10 * qa + ra" and b: "b = 10 * qb + rb"
    by (simp_all add: qa_def ra_def qb_def rb_def)
  have ra: "ra < 10" and rb: "rb < 10" by (simp_all add: ra_def rb_def)
  from Suc.prems have qa: "qa < 10 ^ k" and qb: "qb < 10 ^ k"
    unfolding a b by simp_all
  note ih = Suc.IH [OF qa qb]
  have da: "digits (Suc k) a = digits k qa @ [digitChar ra]"
    and db: "digits (Suc k) b = digits k qb @ [digitChar rb]"
    by (simp_all add: qa_def ra_def qb_def rb_def)
  have "digits (Suc k) a = digits (Suc k) b \<longleftrightarrow> qa = qb \<and> ra = rb"
    unfolding da db using ih digit_char_eq [OF ra rb] by simp
  then have eq: "digits (Suc k) a = digits (Suc k) b \<longleftrightarrow> a = b"
    unfolding a b by (simp only: radix_eq [OF ra rb])
  have "str_le (digits (Suc k) a) (digits (Suc k) b) =
      (if digits k qa = digits k qb then str_le [digitChar ra] [digitChar rb]
       else str_le (digits k qa) (digits k qb))"
    unfolding da db by (rule str_le_same_length) (simp add: digits_length)
  also have "\<dots> = (if qa = qb then ra \<le> rb else qa \<le> qb)"
    using ih digit_char_le [OF ra rb] by simp
  also have "\<dots> = (a \<le> b)"
    unfolding a b by (simp only: radix_le [OF ra rb])
  finally show ?case using eq by simp
qed

lemma digits_chain:
  assumes "a < 10 ^ k" and "b < 10 ^ k"
  shows "str_le (digits k a @ u) (digits k b @ v) = (if a = b then str_le u v else a < b)"
  using str_le_same_length [of "digits k a" "digits k b" u v] digits_compare [OF assms]
  by (auto simp: digits_length)

lemma toISO_order:
  assumes "fitsISO a" and "fitsISO b"
  shows "str_le (toISO a) (toISO b) = stampLe a b"
proof -
  from assms have
    y: "year a < 10 ^ 4" "year b < 10 ^ 4" and
    m: "month a < 10 ^ 2" "month b < 10 ^ 2" and
    d: "dayOfMonth a < 10 ^ 2" "dayOfMonth b < 10 ^ 2" and
    h: "hours a < 10 ^ 2" "hours b < 10 ^ 2" and
    n: "minutes a < 10 ^ 2" "minutes b < 10 ^ 2" and
    s: "seconds a < 10 ^ 2" "seconds b < 10 ^ 2" and
    l: "millis a < 10 ^ 3" "millis b < 10 ^ 3"
    by (simp_all add: fitsISO_def)
  have sep: "str_le (c # u) (c # v) = str_le u v" for c u v
    by simp
  have z: "str_le [] [] = True" by simp
  have "str_le (toISO a) (toISO b) =
     (if year a = year b then
        (if month a = month b then
           (if dayOfMonth a = dayOfMonth b then
              (if hours a = hours b then
                 (if minutes a = minutes b then
                    (if seconds a = seconds b then
                       (if millis a = millis b then True else millis a < millis b)
                     else seconds a < seconds b)
                  else minutes a < minutes b)
               else hours a < hours b)
            else dayOfMonth a < dayOfMonth b)
         else month a < month b)
      else year a < year b)"
    unfolding toISO_def
    by (simp only: digits_chain [OF y] digits_chain [OF m] digits_chain [OF d]
        digits_chain [OF h] digits_chain [OF n] digits_chain [OF s] digits_chain [OF l]
        append_Cons append_Nil sep z)
  also have "\<dots> = stampLe a b"
    unfolding stampLe_def by (simp only: if_not_P if_P split: if_splits) auto
  finally show ?thesis .
qed

text \<open>The two bounds of the previous month, as dates.\<close>

lemma int_div_mod_12:
  fixes q r :: int
  assumes "0 \<le> r" and "r < 12"
  shows "(q * 12 + r) div 12 = q" and "(q * 12 + r) mod 12 = r"
  using assms by simp_all

lemma newDate_startPrev:
  assumes "validClock d"
  shows "newDate (int (getFullYear d)) (int (getMonth d) - 1) 1 =
     \<lparr> year = fst (previousMonth d), month = snd (previousMonth d), dayOfMonth = 1,
       hours = 0, minutes = 0, seconds = 0, millis = 0 \<rparr>"
proof (cases "getMonth d = 0")
  case True
  have "int (getFullYear d) * 12 + (0 - 1) - 0 = (int (getFullYear d) - 1) * 12 + 11"
    by simp
  then have "(int (getFullYear d) * 12 + (0 - 1) - 0) div 12 = int (getFullYear d) - 1"
    and "(int (getFullYear d) * 12 + (0 - 1) - 0) mod 12 = 11"
    by (simp_all only: int_div_mod_12 [of 11])
  with True show ?thesis
    by (simp add: newDate_def previousMonth_def Let_def)
next
  case False
  with assms have r: "0 \<le> int (getMonth d) - 1" "int (getMonth d) - 1 < 12"
    by (simp_all add: validClock_def)
  have "int (getFullYear d) * 12 + (int (getMonth d) - 1) - 0
      = int (getFullYear d) * 12 + (int (getMonth d) - 1)"
    by simp
  with int_div_mod_12 [OF r, of "int (getFullYear d)"]
  have "(int (getFullYear d) * 12 + (int (getMonth d) - 1) - 0) div 12 = int (getFullYear d)"
    and "(int (getFullYear d) * 12 + (int (getMonth d) - 1) - 0) mod 12 = int (getMonth d) - 1"
    by simp_all
  with False show ?thesis
    by (simp add: newDate_def previousMonth_def Let_def nat_diff_distrib)
qed

lemma newDate_endPrev:
  assumes "validClock d"
  shows "newDate (int (getFullYear d)) (int (getMonth d)) 0 =
     \<lparr> year = fst (previousMonth d), month = snd (previousMonth d),
       dayOfMonth = lastDayOfPreviousMonth d,
       hours = 0, minutes = 0, seconds = 0, millis = 0 \<rparr>"
proof (cases "getMonth d = 0")
  case True
  have "int (getFullYear d) * 12 + 0 - 1 = (int (getFullYear d) - 1) * 12 + 11"
    by simp
  then have "(int (getFullYear d) * 12 + 0 - 1) div 12 = int (getFullYear d) - 1"
    and "(int (getFullYear d) * 12 + 0 - 1) mod 12 = 11"
    by (simp_all only: int_div_mod_12 [of 11])
  moreover have "nat (int (getFullYear d) - 1) = getFullYear d - 1" by linarith
  ultimately show ?thesis using True
    by (simp add: newDate_def previousMonth_def lastDayOfPreviousMonth_def Let_def)
next
  case False
  with assms have r: "0 \<le> int (getMonth d) - 1" "int (getMonth d) - 1 < 12"
    by (simp_all add: validClock_def)
  have eq: "int (getFullYear d) * 12 + int (getMonth d) - 1
      = int (getFullYear d) * 12 + (int (getMonth d) - 1)"
    by simp
  have "(int (getFullYear d) * 12 + int (getMonth d) - 1) div 12 = int (getFullYear d)"
    and "(int (getFullYear d) * 12 + int (getMonth d) - 1) mod 12 = int (getMonth d) - 1"
    unfolding eq by (rule int_div_mod_12 [OF r])+
  with False show ?thesis
    by (simp add: newDate_def previousMonth_def lastDayOfPreviousMonth_def Let_def
        nat_diff_distrib)
qed

lemma validStamp_fits: "validStamp t \<Longrightarrow> fitsISO t"
  by (simp add: validStamp_def fitsISO_def)

lemma daysInMonth_le: "daysInMonth y m \<le> 31"
  by (simp add: daysInMonth_def)

lemma daysInMonth_ge: "28 \<le> daysInMonth y m"
  by (simp add: daysInMonth_def)

lemma previousMonth_bounds:
  assumes "validClock d"
  shows "fst (previousMonth d) \<le> 9999" and "snd (previousMonth d) \<le> 12"
  using assms by (auto simp: validClock_def previousMonth_def)

lemma toISO_nonempty: "toISO t \<noteq> []"
  by (simp add: toISO_def)

lemma toUTC_zero: "hours t = 0 \<Longrightarrow> minutes t = 0 \<Longrightarrow> toUTC 0 t = t"
  by (simp add: toUTC_def)

lemma startPrev_rendered:
  assumes "validClock d" and "utcBounds d"
  shows "dateToISOString d (newDate (int (getFullYear d)) (int (getMonth d) - 1) 1) =
     toISO \<lparr> year = fst (previousMonth d), month = snd (previousMonth d), dayOfMonth = 1,
       hours = 0, minutes = 0, seconds = 0, millis = 0 \<rparr>"
proof -
  from assms(2) have "getTimezoneOffset d (newDate (int (getFullYear d)) (int (getMonth d) - 1) 1) = 0"
    by (simp add: utcBounds_def)
  then show ?thesis
    by (simp only: dateToISOString_def) (simp add: newDate_startPrev [OF assms(1)] toUTC_zero)
qed

lemma endPrev_rendered:
  assumes "validClock d" and "utcBounds d"
  shows "dateToISOString d (newDate (int (getFullYear d)) (int (getMonth d)) 0) =
     toISO \<lparr> year = fst (previousMonth d), month = snd (previousMonth d),
       dayOfMonth = lastDayOfPreviousMonth d,
       hours = 0, minutes = 0, seconds = 0, millis = 0 \<rparr>"
proof -
  from assms(2) have "getTimezoneOffset d (newDate (int (getFullYear d)) (int (getMonth d)) 0) = 0"
    by (simp add: utcBounds_def)
  then show ?thesis
    by (simp only: dateToISOString_def) (simp add: newDate_endPrev [OF assms(1)] toUTC_zero)
qed

text \<open>The window of the code, on rendered timestamps, in terms of the calendar.\<close>

lemma window_calendar:
  assumes clk: "validClock d" and utc: "utcBounds d" and t: "validStamp t"
  shows "(str_le (dateToISOString d (newDate (int (getFullYear d)) (int (getMonth d) - 1) 1)) (toISO t)
          \<and> str_le (toISO t) (dateToISOString d (newDate (int (getFullYear d)) (int (getMonth d)) 0)))
         = (inPreviousMonth d t
            \<and> (dayOfMonth t < lastDayOfPreviousMonth d
                \<or> (dayOfMonth t = lastDayOfPreviousMonth d \<and> hours t = 0 \<and> minutes t = 0
                    \<and> seconds t = 0 \<and> millis t = 0)))"
proof -
  let ?s = "\<lparr> year = fst (previousMonth d), month = snd (previousMonth d), dayOfMonth = 1,
       hours = 0, minutes = 0, seconds = 0, millis = 0 \<rparr>"
  let ?e = "\<lparr> year = fst (previousMonth d), month = snd (previousMonth d),
       dayOfMonth = lastDayOfPreviousMonth d,
       hours = 0, minutes = 0, seconds = 0, millis = 0 \<rparr>"
  have fs: "fitsISO ?s" and fe: "fitsISO ?e"
    using previousMonth_bounds [OF clk] daysInMonth_le [of "fst (previousMonth d)" "snd (previousMonth d)"]
    by (simp_all add: fitsISO_def lastDayOfPreviousMonth_def)
  have ft: "fitsISO t" using t by (rule validStamp_fits)
  have day: "1 \<le> dayOfMonth t" using t by (simp add: validStamp_def)
  have lower: "stampLe ?s t =
      (if fst (previousMonth d) \<noteq> year t then fst (previousMonth d) < year t
       else if snd (previousMonth d) \<noteq> month t then snd (previousMonth d) < month t
       else True)"
    using day by (auto simp: stampLe_def)
  have upper: "stampLe t ?e =
      (if year t \<noteq> fst (previousMonth d) then year t < fst (previousMonth d)
       else if month t \<noteq> snd (previousMonth d) then month t < snd (previousMonth d)
       else (dayOfMonth t < lastDayOfPreviousMonth d
             \<or> (dayOfMonth t = lastDayOfPreviousMonth d \<and> hours t = 0 \<and> minutes t = 0
                 \<and> seconds t = 0 \<and> millis t = 0)))"
    by (auto simp: stampLe_def)
  have "(stampLe ?s t \<and> stampLe t ?e) =
      (inPreviousMonth d t
       \<and> (dayOfMonth t < lastDayOfPreviousMonth d
           \<or> (dayOfMonth t = lastDayOfPreviousMonth d \<and> hours t = 0 \<and> minutes t = 0
               \<and> seconds t = 0 \<and> millis t = 0)))"
    unfolding lower upper inPreviousMonth_def by auto
  then show ?thesis
    by (simp only: startPrev_rendered [OF clk utc] endPrev_rendered [OF clk utc]
        toISO_order [OF fs ft] toISO_order [OF ft fe])
qed

lemma dateToISOString_nonempty: "dateToISOString d t \<noteq> []"
  by (simp add: dateToISOString_def toISO_def)

lemma tripsCreated_lastMonth_code:
  "lastMonth (tripsCreated (getUsersAndTripsStats d users tripDocs)) =
     length (filter (\<lambda>u. u ''status'' = Some (Str ''user'')
        \<and> attr_ge (u ''joinedAt'')
             (dateToISOString d (newDate (int (getFullYear d)) (int (getMonth d) - 1) 1))
        \<and> attr_le (u ''joinedAt'')
             (dateToISOString d (newDate (int (getFullYear d)) (int (getMonth d)) 0)))
       (documents users))"
  by (simp add: getUsersAndTripsStats_def Let_def filterByDate_def filterUsersByRole_def
      dateToISOString_nonempty conj_commute)

text \<open>
  What the figure counts, for every clock in a zone without offset and every listing of
  profiles whose \<open>joinedAt\<close> is a rendered timestamp: the profiles with status \<open>user\<close> that
  joined in the previous calendar month before its last day, or at 00:00:00.000 of its last
  day. It is the number reported as \<open>userRole.lastMonth\<close>, whatever the trips listing holds.
\<close>

lemma tripsCreated_lastMonth_window:
  assumes "validClock d" and "utcBounds d"
    and "\<forall>u \<in> set (documents users).
           u ''joinedAt'' = Some (Str (toISO (joined u))) \<and> validStamp (joined u)"
  shows "lastMonth (tripsCreated (getUsersAndTripsStats d users tripDocs)) =
           length (filter (\<lambda>u. u ''status'' = Some (Str ''user'') \<and> inPreviousMonth d (joined u)
                \<and> (dayOfMonth (joined u) < lastDayOfPreviousMonth d
                    \<or> (dayOfMonth (joined u) = lastDayOfPreviousMonth d \<and> hours (joined u) = 0
                        \<and> minutes (joined u) = 0 \<and> seconds (joined u) = 0
                        \<and> millis (joined u) = 0)))
              (documents users))"
    and "lastMonth (tripsCreated (getUsersAndTripsStats d users tripDocs)) =
           lastMonth (userRole (getUsersAndTripsStats d users tripDocs))"
    and "lastMonth (tripsCreated (getUsersAndTripsStats d users tripDocs)) =
           lastMonth (tripsCreated (getUsersAndTripsStats d users tripDocs'))"
proof -
  let ?s = "dateToISOString d (newDate (int (getFullYear d)) (int (getMonth d) - 1) 1)"
  let ?e = "dateToISOString d (newDate (int (getFullYear d)) (int (getMonth d)) 0)"
  have win: "(attr_ge (u ''joinedAt'') ?s \<and> attr_le (u ''joinedAt'') ?e)
      = (inPreviousMonth d (joined u)
         \<and> (dayOfMonth (joined u) < lastDayOfPreviousMonth d
             \<or> (dayOfMonth (joined u) = lastDayOfPreviousMonth d \<and> hours (joined u) = 0
                 \<and> minutes (joined u) = 0 \<and> seconds (joined u) = 0 \<and> millis (joined u) = 0)))"
    if "u \<in> set (documents users)" for u
  proof -
    from that assms(3) have j: "u ''joinedAt'' = Some (Str (toISO (joined u)))"
      and v: "validStamp (joined u)" by blast+
    from window_calendar [OF assms(1) assms(2) v] show ?thesis by (simp add: j)
  qed
  show "lastMonth (tripsCreated (getUsersAndTripsStats d users tripDocs)) =
           length (filter (\<lambda>u. u ''status'' = Some (Str ''user'') \<and> inPreviousMonth d (joined u)
                \<and> (dayOfMonth (joined u) < lastDayOfPreviousMonth d
                    \<or> (dayOfMonth (joined u) = lastDayOfPreviousMonth d \<and> hours (joined u) = 0
                        \<and> minutes (joined u) = 0 \<and> seconds (joined u) = 0
                        \<and> millis (joined u) = 0)))
              (documents users))"
    unfolding tripsCreated_lastMonth_code
    by (rule arg_cong [where f = length], rule filter_cong [OF refl]) (use win in blast)
  show "lastMonth (tripsCreated (getUsersAndTripsStats d users tripDocs)) =
           lastMonth (userRole (getUsersAndTripsStats d users tripDocs))"
    by (simp add: getUsersAndTripsStats_def Let_def)
  show "lastMonth (tripsCreated (getUsersAndTripsStats d users tripDocs)) =
           lastMonth (tripsCreated (getUsersAndTripsStats d users tripDocs'))"
    by (simp add: getUsersAndTripsStats_def Let_def)
qed

text \<open>
  In November 2026 the bounds are 1 November, 1 October and 31 October, each at 00:00. Of
  the three travellers of the example listing who joined in October, two are counted.
\<close>

lemma novemberClock_bounds:
  "dateToISOString novemberClock (newDate 2026 10 1) = ''2026-11-01T00:00:00.000Z''"
  "dateToISOString novemberClock (newDate 2026 (10 - 1) 1) = ''2026-10-01T00:00:00.000Z''"
  "dateToISOString novemberClock (newDate 2026 10 0) = ''2026-10-31T00:00:00.000Z''"
  by (simp_all add: dateToISOString_def novemberClock_def toUTC_def newDate_def daysInMonth_def
      leapYear_def Let_def iso_eval)

lemma dashboardUsers_stamps:
  "\<forall>u \<in> set (documents dashboardUsers).
     u ''joinedAt'' = Some (Str (toISO (joinedStamp u))) \<and> validStamp (joinedStamp u)"
  by (simp add: dashboardUsers_def joinedStamp_def digitsValue_def validStamp_def iso_eval)

lemma novemberClock_valid: "validClock novemberClock" "utcBounds novemberClock"
  by (simp_all add: validClock_def utcBounds_def novemberClock_def)

lemma dashboardUsers_figure:
  "lastMonth (tripsCreated (getUsersAndTripsStats novemberClock dashboardUsers exampleTrips)) = 2"
  "length (filter (\<lambda>u. u ''status'' = Some (Str ''user'')
                        \<and> inPreviousMonth novemberClock (joinedStamp u))
               (documents dashboardUsers)) = 3"
  "filterByDate (documents exampleTrips) ''createdAt'' ''2026-10-01T00:00:00.000Z''
         (Some ''2026-10-31T00:00:00.000Z'') = 1"
proof -
  show "lastMonth (tripsCreated (getUsersAndTripsStats novemberClock dashboardUsers exampleTrips)) = 2"
    using tripsCreated_lastMonth_window(1) [OF novemberClock_valid dashboardUsers_stamps, of exampleTrips]
    by (simp add: dashboardUsers_def inPreviousMonth_def previousMonth_def novemberClock_def
        lastDayOfPreviousMonth_def daysInMonth_def joinedStamp_def digitsValue_def)
  show "length (filter (\<lambda>u. u ''status'' = Some (Str ''user'')
                        \<and> inPreviousMonth novemberClock (joinedStamp u))
               (documents dashboardUsers)) = 3"
    by (simp add: dashboardUsers_def inPreviousMonth_def previousMonth_def novemberClock_def
        joinedStamp_def digitsValue_def)
  show "filterByDate (documents exampleTrips) ''createdAt'' ''2026-10-01T00:00:00.000Z''
         (Some ''2026-10-31T00:00:00.000Z'') = 1"
    by (simp add: filterByDate_def exampleTrips_def)
qed

text \<open>
  Claim C5 at a profile the window misses. \<^verbatim>\<open>tripsCreated.lastMonth\<close> is computed by
  the user-role filter and not from the trips collection, but it is not the number of
  profiles with status \<open>user\<close> that joined in the previous calendar month:
  \<^verbatim>\<open>endPrev\<close> is 00:00 of that month's last day, so a profile that joined later on that
  day is left out. With the clock in November 2026
  and a listing of one profile with status \<open>user\<close> that joined on 31 October 2026 at noon,
  the profile joined in the previous month and the figure is 0; \<^verbatim>\<open>usersJoined\<close> counts the
  profile in neither month.
\<close>

theorem getUsersAndTripsStats_last_day:
  "lastDayUser ''status'' = Some (Str ''user'')
   \<and> lastDayUser ''joinedAt'' = Some (Str ''2026-10-31T12:00:00.000Z'')
   \<and> joinedStamp lastDayUser = \<lparr> year = 2026, month = 10, dayOfMonth = 31, hours = 12,
        minutes = 0, seconds = 0, millis = 0 \<rparr>
   \<and> inPreviousMonth novemberClock (joinedStamp lastDayUser)
   \<and> lastMonth (tripsCreated (getUsersAndTripsStats novemberClock
        \<lparr>documents = [lastDayUser], total = 1\<rparr> exampleTrips)) = 0
   \<and> currentMonth (usersJoined (getUsersAndTripsStats novemberClock
        \<lparr>documents = [lastDayUser], total = 1\<rparr> exampleTrips)) = 0
   \<and> lastMonth (usersJoined (getUsersAndTripsStats novemberClock
        \<lparr>documents = [lastDayUser], total = 1\<rparr> exampleTrips)) = 0"
proof -
  have stamp: "joinedStamp lastDayUser = \<lparr> year = 2026, month = 10, dayOfMonth = 31, hours = 12,
        minutes = 0, seconds = 0, millis = 0 \<rparr>"
    by (simp add: lastDayUser_def joinedStamp_def digitsValue_def)
  have prev: "inPreviousMonth novemberClock (joinedStamp lastDayUser)"
    unfolding stamp by (simp add: inPreviousMonth_def previousMonth_def novemberClock_def)
  have y: "int (getFullYear novemberClock) = 2026" "int (getMonth novemberClock) = 10"
    by (simp_all add: novemberClock_def)
  have stats: "lastMonth (tripsCreated (getUsersAndTripsStats novemberClock
        \<lparr>documents = [lastDayUser], total = 1\<rparr> exampleTrips)) = 0"
    "currentMonth (usersJoined (getUsersAndTripsStats novemberClock
        \<lparr>documents = [lastDayUser], total = 1\<rparr> exampleTrips)) = 0"
    "lastMonth (usersJoined (getUsersAndTripsStats novemberClock
        \<lparr>documents = [lastDayUser], total = 1\<rparr> exampleTrips)) = 0"
    by (simp_all add: getUsersAndTripsStats_def Let_def y novemberClock_bounds filterByDate_def
        filterUsersByRole_def lastDayUser_def)
  have doc: "lastDayUser ''status'' = Some (Str ''user'')"
    "lastDayUser ''joinedAt'' = Some (Str ''2026-10-31T12:00:00.000Z'')"
    by (simp_all add: lastDayUser_def)
  from doc stamp prev stats show ?thesis by (simp only: simp_thms)
qed

section \<open>The admin guard\<close>

lemma getExistingUser_found:
  assumes "listUsers sv [Equal ''accountId'' uid] = Inr found"
    and "documents found = p # ps" and "0 < total found"
  shows "getExistingUser sv uid = Some p"
  using assms by (simp add: getExistingUser_def)

lemma getExistingUser_none:
  assumes "listUsers sv [Equal ''accountId'' uid] = Inr found" and "total found = 0"
  shows "getExistingUser sv uid = None"
  using assms by (simp add: getExistingUser_def)

lemma storeUserData_session:
  assumes "account_get sv = Inr user" and "getSession sv = Inr session"
    and "picture = (case session of
                      None \<Rightarrow> None
                    | Some s \<Rightarrow>
                        (if providerAccessToken s \<noteq> [] then googlePicture sv (providerAccessToken s)
                         else None))"
  shows "requested (storeUserData sv) = [profileData user picture (toISOString sv)]
         \<and> stored (storeUserData sv) =
             (case createUser sv (profileData user picture (toISOString sv)) of
                Inl e \<Rightarrow> [] | Inr created \<Rightarrow> [created])"
  using assms by (simp add: storeUserData_def Let_def split: sum.splits)

lemma profileData_accountId: "profileData user picture now ''accountId'' = Some (Str (account_id user))"
  by (simp add: profileData_def)


text \<open>
  Claim C6. The admin guard redirects to sign-in when there is no authenticated session
  (\<^verbatim>\<open>account.get()\<close> rejects, or the account has no id); it redirects to the root when
  the profile found for the account has the role \<^verbatim>\<open>user\<close>; it returns the profile found
  when that has the role \<^verbatim>\<open>admin\<close>, and creates nothing; and when the store has no
  profile for the account, it sends one profile for that account to the store.
\<close>

theorem clientLoader_guard:
  "(account_get sv = Inl e \<longrightarrow> clientLoader sv = (Redirect ''/sign-in'', noEffect))
   \<and> (account_get sv = Inr user \<and> account_id user = [] \<longrightarrow>
        clientLoader sv = (Redirect ''/sign-in'', noEffect))
   \<and> (account_get sv = Inr user \<and> account_id user \<noteq> []
        \<and> listUsers sv [Equal ''accountId'' (account_id user)] = Inr found
        \<and> documents found = p # ps \<and> 0 < total found \<and> p ''status'' = Some (Str ''user'') \<longrightarrow>
        clientLoader sv = (Redirect ''/'', noEffect))
   \<and> (account_get sv = Inr user \<and> account_id user \<noteq> []
        \<and> listUsers sv [Equal ''accountId'' (account_id user)] = Inr found
        \<and> documents found = p # ps \<and> 0 < total found \<and> p ''status'' = Some (Str ''admin'')
        \<and> truthy (p ''$id'') \<longrightarrow>
        clientLoader sv = (Profile p, noEffect))
   \<and> (account_get sv = Inr user \<and> account_id user \<noteq> []
        \<and> listUsers sv [Equal ''accountId'' (account_id user)] = Inr found
        \<and> total found = 0 \<and> getSession sv = Inr session \<longrightarrow>
        fst (clientLoader sv) = Undefined
        \<and> (\<exists>data. requested (snd (clientLoader sv)) = [data]
              \<and> data ''accountId'' = Some (Str (account_id user))
              \<and> stored (snd (clientLoader sv)) =
                  (case createUser sv data of Inl e \<Rightarrow> [] | Inr created \<Rightarrow> [created])))"
proof (intro conjI impI)
  assume "account_get sv = Inl e"
  then show "clientLoader sv = (Redirect ''/sign-in'', noEffect)"
    by (simp add: clientLoader_def)
next
  assume "account_get sv = Inr user \<and> account_id user = []"
  then show "clientLoader sv = (Redirect ''/sign-in'', noEffect)"
    by (simp add: clientLoader_def)
next
  assume a: "account_get sv = Inr user \<and> account_id user \<noteq> []
        \<and> listUsers sv [Equal ''accountId'' (account_id user)] = Inr found
        \<and> documents found = p # ps \<and> 0 < total found \<and> p ''status'' = Some (Str ''user'')"
  then have "getExistingUser sv (account_id user) = Some p"
    by (simp add: getExistingUser_found)
  with a show "clientLoader sv = (Redirect ''/'', noEffect)"
    by (simp add: clientLoader_def)
next
  assume a: "account_get sv = Inr user \<and> account_id user \<noteq> []
        \<and> listUsers sv [Equal ''accountId'' (account_id user)] = Inr found
        \<and> documents found = p # ps \<and> 0 < total found \<and> p ''status'' = Some (Str ''admin'')
        \<and> truthy (p ''$id'')"
  then have "getExistingUser sv (account_id user) = Some p"
    by (simp add: getExistingUser_found)
  with a show "clientLoader sv = (Profile p, noEffect)"
    by (simp add: clientLoader_def)
next
  assume a: "account_get sv = Inr user \<and> account_id user \<noteq> []
        \<and> listUsers sv [Equal ''accountId'' (account_id user)] = Inr found
        \<and> total found = 0 \<and> getSession sv = Inr session"
  then have none: "getExistingUser sv (account_id user) = None"
    by (simp add: getExistingUser_none)
  with a have cl: "clientLoader sv = (Undefined, storeUserData sv)"
    by (simp add: clientLoader_def)
  then show "fst (clientLoader sv) = Undefined" by simp
  from a storeUserData_session [of sv user session, OF _ _ refl] obtain picture where
    "requested (storeUserData sv) = [profileData user picture (toISOString sv)]"
    "stored (storeUserData sv) =
       (case createUser sv (profileData user picture (toISOString sv)) of
          Inl e \<Rightarrow> [] | Inr created \<Rightarrow> [created])"
    by blast
  with cl show "\<exists>data. requested (snd (clientLoader sv)) = [data]
              \<and> data ''accountId'' = Some (Str (account_id user))
              \<and> stored (snd (clientLoader sv)) =
                  (case createUser sv data of Inl e \<Rightarrow> [] | Inr created \<Rightarrow> [created])"
    using profileData_accountId by auto
qed

theorem clientLoader_guard_witness:
  "clientLoader (exampleServices\<lparr>account_get := Inl (ServiceError ''401'')\<rparr>)
     = (Redirect ''/sign-in'', noEffect)
   \<and> clientLoader (exampleServices\<lparr>listUsers := (\<lambda>q. Inr \<lparr>documents = [userProfile], total = 1\<rparr>)\<rparr>)
     = (Redirect ''/'', noEffect)
   \<and> clientLoader (exampleServices\<lparr>listUsers := (\<lambda>q. Inr \<lparr>documents = [adminProfile], total = 1\<rparr>)\<rparr>)
     = (Profile adminProfile, noEffect)
   \<and> fst (clientLoader exampleServices) = Undefined
   \<and> length (stored (snd (clientLoader exampleServices))) = 1"
proof -
  let ?s1 = "exampleServices\<lparr>account_get := Inl (ServiceError ''401'')\<rparr>"
  let ?s2 = "exampleServices\<lparr>listUsers := (\<lambda>q. Inr \<lparr>documents = [userProfile], total = 1\<rparr>)\<rparr>"
  let ?s3 = "exampleServices\<lparr>listUsers := (\<lambda>q. Inr \<lparr>documents = [adminProfile], total = 1\<rparr>)\<rparr>"
  have a1: "clientLoader ?s1 = (Redirect ''/sign-in'', noEffect)"
    using clientLoader_guard [of ?s1 "ServiceError ''401''"]
    by (simp add: exampleServices_def)
  have a2: "clientLoader ?s2 = (Redirect ''/'', noEffect)"
    using clientLoader_guard [of ?s2 _ exampleAccount "\<lparr>documents = [userProfile], total = 1\<rparr>"
        userProfile "[]"]
    by (simp add: exampleServices_def exampleAccount_def userProfile_def)
  have a3: "clientLoader ?s3 = (Profile adminProfile, noEffect)"
    using clientLoader_guard [of ?s3 _ exampleAccount "\<lparr>documents = [adminProfile], total = 1\<rparr>"
        adminProfile "[]"]
    by (simp add: exampleServices_def exampleAccount_def adminProfile_def truthy_def)
  have a4: "fst (clientLoader exampleServices) = Undefined
      \<and> length (stored (snd (clientLoader exampleServices))) = 1"
    using clientLoader_guard [of exampleServices _ exampleAccount "\<lparr>documents = [], total = 0\<rparr>"
        _ _ None]
    by (auto simp: exampleServices_def exampleAccount_def)
  from a1 a2 a3 a4 show ?thesis by simp
qed

section \<open>The create-trip action\<close>

lemma action_unfold:
  "action sv (Inr req) =
     (case generateContent sv req of
        Inl e \<Rightarrow> (failedToCreateTrip, [])
      | Inr reply \<Rightarrow>
          (case fetchPhotos sv (photoQuery req) of
             Inl e \<Rightarrow> (failedToCreateTrip, [])
           | Inr NoResultList \<Rightarrow> (failedToCreateTrip, [])
           | Inr (Results rs) \<Rightarrow>
               (case createTrip sv (tripDataOf sv req reply rs) of
                  Inl e \<Rightarrow> (failedToCreateTrip, [])
                | Inr newId \<Rightarrow> (DataId newId, [tripDataOf sv req reply rs]))))"
  by (simp add: action_def photoQuery_def tripDataOf_def Let_def
      split: sum.splits PhotoBody.splits)

lemma action_undecoded: "action sv (Inl e) = (Unhandled e, [])"
  by (simp add: action_def)

lemma action_written:
  assumes "d \<in> set (snd (action sv rq))"
  shows "\<exists>req reply rs newId. rq = Inr req \<and> generateContent sv req = Inr reply
           \<and> fetchPhotos sv (photoQuery req) = Inr (Results rs)
           \<and> createTrip sv (tripDataOf sv req reply rs) = Inr newId
           \<and> d = tripDataOf sv req reply rs"
proof (cases rq)
  case (Inl e)
  with assms show ?thesis by (simp add: action_undecoded)
next
  case (Inr req)
  with assms show ?thesis
    by (auto simp: action_unfold split: sum.splits PhotoBody.splits)
qed

lemma no_block_null:
  "regexMatch reply = None \<Longrightarrow> parseMarkdownToJson parse reply = (JNull, [NoValidJSONFound])"
  by (simp add: parseMarkdownToJson_def)

text \<open>
  Claim C2, as the code has it. For every request whose body decodes, the response is
  \<^verbatim>\<open>{id}\<close> or \<^verbatim>\<open>{error: 'Failed to create trip'}\<close>, and it is the error exactly when the
  model call, the photo search or the write fails. A reply without an extractable block
  is not such a failure: extraction yields \<^verbatim>\<open>null\<close>, and when the photo search and the
  write succeed the action writes the document and answers \<^verbatim>\<open>{id}\<close>.
\<close>

theorem action_id_or_error:
  "((\<exists>newId. fst (action sv (Inr req)) = DataId newId)
      \<or> fst (action sv (Inr req)) = failedToCreateTrip)
   \<and> (fst (action sv (Inr req)) = failedToCreateTrip \<longleftrightarrow> someStepFails sv req)
   \<and> (regexMatch reply = None \<longrightarrow> fst (parseMarkdownToJson (JSON_parse sv) reply) = JNull)
   \<and> (generateContent sv req = Inr reply
        \<and> fetchPhotos sv (photoQuery req) = Inr (Results rs)
        \<and> createTrip sv (tripDataOf sv req reply rs) = Inr newId \<longrightarrow>
        action sv (Inr req) = (DataId newId, [tripDataOf sv req reply rs]))"
proof (intro conjI impI)
  show "(\<exists>newId. fst (action sv (Inr req)) = DataId newId)
      \<or> fst (action sv (Inr req)) = failedToCreateTrip"
    by (simp add: action_unfold split: sum.splits PhotoBody.splits)
next
  show "fst (action sv (Inr req)) = failedToCreateTrip \<longleftrightarrow> someStepFails sv req"
    by (simp add: action_unfold someStepFails_def failedToCreateTrip_def
        split: sum.splits PhotoBody.splits)
next
  assume "regexMatch reply = None"
  then show "fst (parseMarkdownToJson (JSON_parse sv) reply) = JNull"
    by (simp add: no_block_null)
next
  assume "generateContent sv req = Inr reply
        \<and> fetchPhotos sv (photoQuery req) = Inr (Results rs)
        \<and> createTrip sv (tripDataOf sv req reply rs) = Inr newId"
  then show "action sv (Inr req) = (DataId newId, [tripDataOf sv req reply rs])"
    by (simp add: action_unfold)
qed

theorem action_id_or_error_witness:
  "fst (action exampleServices (Inr exampleBody)) = DataId ''trip-1''
   \<and> \<not> someStepFails exampleServices exampleBody
   \<and> fst (action photoDownServices (Inr exampleBody)) = failedToCreateTrip
   \<and> someStepFails photoDownServices exampleBody"
proof -
  have ok: "generateContent exampleServices exampleBody = Inr exampleReply
        \<and> fetchPhotos exampleServices (photoQuery exampleBody) = Inr (Results [])
        \<and> createTrip exampleServices (tripDataOf exampleServices exampleBody exampleReply [])
            = Inr ''trip-1''"
    by (simp add: exampleServices_def)
  have down: "someStepFails photoDownServices exampleBody"
    by (simp add: someStepFails_def photoDownServices_def exampleServices_def)
  from ok action_id_or_error [of exampleServices exampleBody exampleReply "[]" "''trip-1''"]
  have a: "fst (action exampleServices (Inr exampleBody)) = DataId ''trip-1''"
    and b: "\<not> someStepFails exampleServices exampleBody"
    by (auto simp: failedToCreateTrip_def)
  from down action_id_or_error [of photoDownServices exampleBody]
  have c: "fst (action photoDownServices (Inr exampleBody)) = failedToCreateTrip"
    by simp
  from a b c down show ?thesis by simp
qed

theorem action_null_extraction_counterexample:
  "regexMatch plainReply = None
   \<and> parseMarkdownToJson (JSON_parse plainReplyServices) plainReply = (JNull, [NoValidJSONFound])
   \<and> action plainReplyServices (Inr exampleBody) =
       (DataId ''trip-1'',
        [\<lparr> tripDetail = JNull, createdAt = ''2026-11-02T07:33:00.000Z'', imageUrls = [],
            userId = ''acc-1'' \<rparr>])"
proof -
  have none: "regexMatch plainReply = None"
    by (simp add: plainReply_def matchAt_def startsWith_def fenceOpen_def)
  then have null: "parseMarkdownToJson (JSON_parse plainReplyServices) plainReply
      = (JNull, [NoValidJSONFound])"
    by (rule no_block_null)
  have "action plainReplyServices (Inr exampleBody) =
       (DataId ''trip-1'',
        [\<lparr> tripDetail = JNull, createdAt = ''2026-11-02T07:33:00.000Z'', imageUrls = [],
            userId = ''acc-1'' \<rparr>])"
    using null
    by (simp add: action_unfold tripDataOf_def plainReplyServices_def exampleServices_def
        exampleBody_def)
  with none null show ?thesis by simp
qed

text \<open>
  Claim C4, as the code has it. The photo search runs inside the same \<^verbatim>\<open>try\<close> as the
  write and before it: when the search rejects or its body has no result list, the action
  answers the error and writes nothing. When the search answers an empty result list the
  document is written with no images. Every written document carries the image list taken
  from the first three results of a search that succeeded.
\<close>

theorem action_image_step:
  "(generateContent sv req = Inr reply
      \<and> (fetchPhotos sv (photoQuery req) = Inl e
          \<or> fetchPhotos sv (photoQuery req) = Inr NoResultList) \<longrightarrow>
      action sv (Inr req) = (failedToCreateTrip, []))
   \<and> (generateContent sv req = Inr reply
        \<and> fetchPhotos sv (photoQuery req) = Inr (Results [])
        \<and> createTrip sv (tripDataOf sv req reply []) = Inr newId \<longrightarrow>
        action sv (Inr req) = (DataId newId, [tripDataOf sv req reply []])
        \<and> imageUrls (tripDataOf sv req reply []) = [])
   \<and> (\<forall>d \<in> set (snd (action sv rq)).
         \<exists>rq' rs. rq = Inr rq' \<and> fetchPhotos sv (photoQuery rq') = Inr (Results rs)
           \<and> imageUrls d = map regularOrNull (take 3 rs))"
proof (intro conjI impI ballI)
  assume "generateContent sv req = Inr reply
      \<and> (fetchPhotos sv (photoQuery req) = Inl e
          \<or> fetchPhotos sv (photoQuery req) = Inr NoResultList)"
  then show "action sv (Inr req) = (failedToCreateTrip, [])"
    by (auto simp: action_unfold)
next
  assume "generateContent sv req = Inr reply
        \<and> fetchPhotos sv (photoQuery req) = Inr (Results [])
        \<and> createTrip sv (tripDataOf sv req reply []) = Inr newId"
  then show "action sv (Inr req) = (DataId newId, [tripDataOf sv req reply []])"
    by (simp add: action_unfold)
next
  show "imageUrls (tripDataOf sv req reply []) = []"
    by (simp add: tripDataOf_def)
next
  fix d assume "d \<in> set (snd (action sv rq))"
  from action_written [OF this] obtain rq' reply' rs where
    "rq = Inr rq'" "fetchPhotos sv (photoQuery rq') = Inr (Results rs)"
    "d = tripDataOf sv rq' reply' rs"
    by blast
  then have "rq = Inr rq' \<and> fetchPhotos sv (photoQuery rq') = Inr (Results rs)
           \<and> imageUrls d = map regularOrNull (take 3 rs)"
    by (simp add: tripDataOf_def)
  then show "\<exists>rq' rs. rq = Inr rq' \<and> fetchPhotos sv (photoQuery rq') = Inr (Results rs)
           \<and> imageUrls d = map regularOrNull (take 3 rs)"
    by blast
qed

theorem action_image_step_witness:
  "action exampleServices (Inr exampleBody) =
      (DataId ''trip-1'', [tripDataOf exampleServices exampleBody exampleReply []])
   \<and> imageUrls (tripDataOf exampleServices exampleBody exampleReply []) = []
   \<and> action (exampleServices\<lparr>fetchPhotos := (\<lambda>q. Inr NoResultList)\<rparr>) (Inr exampleBody)
       = (failedToCreateTrip, [])"
proof -
  let ?none = "exampleServices\<lparr>fetchPhotos := (\<lambda>q. Inr NoResultList)\<rparr>"
  have ok: "generateContent exampleServices exampleBody = Inr exampleReply
        \<and> fetchPhotos exampleServices (photoQuery exampleBody) = Inr (Results [])
        \<and> createTrip exampleServices (tripDataOf exampleServices exampleBody exampleReply [])
            = Inr ''trip-1''"
    by (simp add: exampleServices_def)
  have bad: "generateContent ?none exampleBody = Inr exampleReply
      \<and> (fetchPhotos ?none (photoQuery exampleBody) = Inl TypeError
          \<or> fetchPhotos ?none (photoQuery exampleBody) = Inr NoResultList)"
    by (simp add: exampleServices_def)
  from ok action_image_step [of exampleServices exampleBody exampleReply _ "''trip-1''"]
  have a: "action exampleServices (Inr exampleBody) =
      (DataId ''trip-1'', [tripDataOf exampleServices exampleBody exampleReply []])
      \<and> imageUrls (tripDataOf exampleServices exampleBody exampleReply []) = []"
    by blast
  from bad action_image_step [of ?none exampleBody exampleReply TypeError]
  have b: "action ?none (Inr exampleBody) = (failedToCreateTrip, [])"
    by blast
  from a b show ?thesis by simp
qed

theorem action_photo_failure_counterexample:
  "fetchPhotos photoDownServices (photoQuery exampleBody) = Inl (ServiceError ''fetch failed'')
   \<and> action photoDownServices (Inr exampleBody) = (DataError ''Failed to create trip'', [])"
  by (simp add: action_unfold photoDownServices_def exampleServices_def failedToCreateTrip_def)

section \<open>The invariants of the data model\<close>







section \<open>The trip form\<close>

text \<open>
  For a duration that is a number, \<^verbatim>\<open>handleSubmit\<close> does what the validation is for: an
  invalid form gets an error message and posts nothing, and whatever is posted comes from
  a valid form.
\<close>

lemma handleSubmit_number:
  assumes "duration (formData st) = Num r"
  shows "(\<not> (requiredFilled (formData st) \<and> durationInRange (duration (formData st))) \<longrightarrow>
            posted (handleSubmit sv st) = []
            \<and> error (after (handleSubmit sv st)) \<noteq> None
            \<and> \<not> loading (after (handleSubmit sv st)))
         \<and> (posted (handleSubmit sv st) \<noteq> [] \<longrightarrow>
            requiredFilled (formData st) \<and> 1 \<le> r \<and> r \<le> 10)"
  using assms
  by (auto simp: handleSubmit_def requiredFilled_def durationInRange_def js_gt_def Let_def
      split: sum.splits)

text \<open>
  Claim C7 at the form state the validation misses. The duration field is a plain text
  input read through \<^verbatim>\<open>Number(e.target.value)\<close>, so text that is not a number leaves
  \<open>NaN\<close> in the form. Both range comparisons are false for \<open>NaN\<close>: no error message is
  set and the request is posted with \<open>NaN\<close> days.
\<close>

theorem handleSubmit_NaN_duration:
  "posted (handleSubmit exampleServices
            \<lparr>formData = filledForm\<lparr>duration := NaN\<rparr>, error = None, loading = False\<rparr>)
     = [exampleBody\<lparr>numberOfDays := NaN\<rparr>]
   \<and> error (after (handleSubmit exampleServices
            \<lparr>formData = filledForm\<lparr>duration := NaN\<rparr>, error = None, loading = False\<rparr>)) = None
   \<and> durationInRange NaN = False"
  by (simp add: handleSubmit_def exampleServices_def exampleAccount_def filledForm_def
      exampleBody_def js_gt_def durationInRange_def Let_def)

section \<open>The trips page\<close>




end
